theory Spec2Isabelle
  imports Complex_Main "HOL-Library.Monad_Syntax" "HOL-Library.Log_Nat"
begin

section \<open>Touch-from-button configuration dialog (citra\_qt)\<close>

text \<open>
  A shallow embedding of \<^verbatim>\<open>src/citra_qt/configuration/configure_touch_from_button.cpp\<close>:
  the profile store (\<^verbatim>\<open>touch_maps\<close>, \<^verbatim>\<open>selected_index\<close>), the binding list model, the
  markers of \<^verbatim>\<open>TouchScreenPreview\<close>, the capture session driven by \<^verbatim>\<open>input_setter\<close>
  and the two timers, and the coordinate mapping between device and widget space.
\<close>

subsection \<open>Common::ParamPackage\<close>

text \<open>
  \<^verbatim>\<open>common/param_package.h\<close> is not among the sources. A package is kept as an
  association list with distinct keys; \<^verbatim>\<open>Has\<close> and \<^verbatim>\<open>Get\<close> only look keys up.
\<close>

type_synonym ParamPackage = "(string \<times> string) list"

definition Has :: "ParamPackage \<Rightarrow> string \<Rightarrow> bool" where
  \<comment> \<open>Modelled from the spec: \<^verbatim>\<open>ParamPackage::Has\<close> is missing; a pure existence check.\<close>
  "Has p k = (map_of p k \<noteq> None)"

definition Get :: "ParamPackage \<Rightarrow> string \<Rightarrow> string \<Rightarrow> string" where
  \<comment> \<open>Modelled from the spec: \<^verbatim>\<open>ParamPackage::Get\<close> (string overload) is missing; it never
      fails, a missing key returns the caller's default.\<close>
  "Get p k dflt = (case map_of p k of None \<Rightarrow> dflt | Some v \<Rightarrow> v)"

fun Set_param :: "ParamPackage \<Rightarrow> string \<Rightarrow> string \<Rightarrow> ParamPackage" where
  \<comment> \<open>Modelled from the spec: \<^verbatim>\<open>ParamPackage::Set\<close> is missing; the value of an existing
      key is replaced, a new key is added.\<close>
  "Set_param [] k v = [(k, v)]"
| "Set_param ((k', v') # p) k v = (if k' = k then (k, v) # p else (k', v') # Set_param p k v)"

text \<open>Decimal text of integers, for the numeric overloads of \<^verbatim>\<open>Get\<close> and \<^verbatim>\<open>Set\<close>.\<close>

definition digit_chars :: string where
  \<comment> \<open>Modelled from the spec: part of the missing numeric coercion; the decimal digits.\<close>
  "digit_chars = ''0123456789''"

fun show_nat :: "nat \<Rightarrow> string" where
  \<comment> \<open>Modelled from the spec: part of the missing \<^verbatim>\<open>Set\<close> (int overload); decimal digits.\<close>
  "show_nat n = (if n < 10 then [digit_chars ! n] else show_nat (n div 10) @ [digit_chars ! (n mod 10)])"

declare show_nat.simps [simp del]

definition show_int :: "int \<Rightarrow> string" where
  \<comment> \<open>Modelled from the spec: part of the missing \<^verbatim>\<open>Set\<close> (int overload); decimal text with
      a leading minus sign for a negative number.\<close>
  "show_int i = (if i < 0 then CHR ''-'' # show_nat (nat (- i)) else show_nat (nat i))"

fun digit_val :: "char \<Rightarrow> nat option" where
  \<comment> \<open>Modelled from the spec: part of the missing \<^verbatim>\<open>Get\<close> (int overload).\<close>
  "digit_val c = (if c \<in> set digit_chars then Some (of_char c - 48) else None)"

fun read_nat :: "nat \<Rightarrow> string \<Rightarrow> nat option" where
  \<comment> \<open>Modelled from the spec: part of the missing \<^verbatim>\<open>Get\<close> (int overload).\<close>
  "read_nat acc [] = Some acc"
| "read_nat acc (c # cs) = (case digit_val c of None \<Rightarrow> None | Some d \<Rightarrow> read_nat (10 * acc + d) cs)"

fun read_int :: "string \<Rightarrow> int option" where
  \<comment> \<open>Modelled from the spec: part of the missing \<^verbatim>\<open>Get\<close> (int overload); \<open>None\<close> for a text
      that is not an optional minus sign followed by decimal digits.\<close>
  "read_int [] = None"
| "read_int (c # cs) =
     (if c = CHR ''-'' then (if cs = [] then None else map_option (\<lambda>n. - int n) (read_nat 0 cs))
      else map_option int (read_nat 0 (c # cs)))"

definition Get_int :: "ParamPackage \<Rightarrow> string \<Rightarrow> int \<Rightarrow> int" where
  \<comment> \<open>Modelled from the spec: \<^verbatim>\<open>ParamPackage::Get\<close> (int overload) is missing; numeric
      coercion of the stored text, the default when the key is missing or not a number.\<close>
  "Get_int p k dflt =
     (case map_of p k of None \<Rightarrow> dflt
      | Some v \<Rightarrow> (case read_int v of None \<Rightarrow> dflt | Some i \<Rightarrow> i))"

definition Set_int :: "ParamPackage \<Rightarrow> string \<Rightarrow> int \<Rightarrow> ParamPackage" where
  \<comment> \<open>Modelled from the spec: \<^verbatim>\<open>ParamPackage::Set\<close> (int overload) is missing.\<close>
  "Set_int p k i = Set_param p k (show_int i)"

text \<open>The text format: \<^verbatim>\<open>key:value\<close> pairs joined by a comma.\<close>

fun Serialize :: "ParamPackage \<Rightarrow> string" where
  \<comment> \<open>Modelled from the spec: \<^verbatim>\<open>ParamPackage::Serialize\<close> is missing; a canonical
      \<^verbatim>\<open>key:value\<close> pair list joined by a fixed delimiter, without escaping.\<close>
  "Serialize [] = []"
| "Serialize [(k, v)] = k @ CHR '':'' # v"
| "Serialize ((k, v) # q # p) = k @ CHR '':'' # v @ CHR '','' # Serialize (q # p)"

fun split_on :: "char \<Rightarrow> string \<Rightarrow> string list" where
  \<comment> \<open>Modelled from the spec: part of the missing parser; the pieces between delimiters.\<close>
  "split_on c [] = [[]]"
| "split_on c (x # xs) =
     (if x = c then [] # split_on c xs
      else (case split_on c xs of [] \<Rightarrow> [[x]] | w # ws \<Rightarrow> (x # w) # ws))"

fun add_pair :: "ParamPackage \<Rightarrow> string list \<Rightarrow> ParamPackage" where
  \<comment> \<open>Modelled from the spec: part of the missing parser; one \<^verbatim>\<open>key:value\<close> pair is set.\<close>
  "add_pair p [k, v] = Set_param p k v"
| "add_pair p _ = p"

definition Parse :: "string \<Rightarrow> ParamPackage" where
  \<comment> \<open>Modelled from the spec: the constructor \<^verbatim>\<open>ParamPackage(const std::string&)\<close> is
      missing; the inverse of \<^verbatim>\<open>Serialize\<close>, which never raises: text that is not a list
      of \<^verbatim>\<open>key:value\<close> pairs gives the empty (unbound) package.\<close>
  "Parse s =
     (let pieces = map (split_on CHR '':'') (split_on CHR '','' s)
      in if list_all (\<lambda>kv. length kv = 2) pieces then foldl add_pair [] pieces else [])"

definition GenerateKeyboardParam :: "int \<Rightarrow> string" where
  \<comment> \<open>Modelled from the spec: \<^verbatim>\<open>InputCommon::GenerateKeyboardParam\<close> is missing; the text of
      a keyboard-engine descriptor built from the key code.\<close>
  "GenerateKeyboardParam key_code =
     Serialize (Set_int (Set_param [] ''engine'' ''keyboard'') ''code'' key_code)"

text \<open>
  Texts free of both delimiters, and packages made of such texts under distinct keys: the
  packages on which the text format is unambiguous.
\<close>

definition clean_text :: "string \<Rightarrow> bool" where
  "clean_text w = (CHR '','' \<notin> set w \<and> CHR '':'' \<notin> set w)"

definition clean :: "ParamPackage \<Rightarrow> bool" where
  "clean p = (distinct (map fst p) \<and> list_all (\<lambda>kv. clean_text (fst kv) \<and> clean_text (snd kv)) p)"

subsection \<open>Button texts\<close>

text \<open>
  The texts shown in column 0 are kept symbolic: translation and
  \<^verbatim>\<open>QKeySequence::toString\<close> belong to Qt.
\<close>

datatype label =
    NotSet | PressKey | Shift | Ctrl | Alt | Blank | KeySequence int
  | Hat string string | Axis string string | Button string | Unknown

text \<open>The key codes of \<^verbatim>\<open>Qt::Key\<close> that the dialog names.\<close>

definition Key_Escape :: int where "Key_Escape = 16777216"
definition Key_Delete :: int where "Key_Delete = 16777223"
definition Key_Shift :: int where "Key_Shift = 16777248"
definition Key_Control :: int where "Key_Control = 16777249"
definition Key_Meta :: int where "Key_Meta = 16777250"
definition Key_Alt :: int where "Key_Alt = 16777251"

definition GetKeyName :: "int \<Rightarrow> label" where
  "GetKeyName key_code =
     (if key_code = Key_Shift then Shift
      else if key_code = Key_Control then Ctrl
      else if key_code = Key_Alt then Alt
      else if key_code = Key_Meta then Blank
      else KeySequence key_code)"

definition ButtonToText :: "ParamPackage \<Rightarrow> label" where
  "ButtonToText param =
     (if \<not> Has param ''engine'' then NotSet
      else if Get param ''engine'' [] = ''keyboard'' then GetKeyName (Get_int param ''code'' 0)
      else if Get param ''engine'' [] = ''sdl'' then
        (if Has param ''hat'' then Hat (Get param ''hat'' []) (Get param ''direction'' [])
         else if Has param ''axis'' then Axis (Get param ''axis'' []) (Get param ''direction'' [])
         else if Has param ''button'' then Button (Get param ''button'' [])
         else Blank)
      else Unknown)"

subsection \<open>State of the dialog\<close>

record TouchFromButtonMap =
  name :: string
  buttons :: "string list"

text \<open>
  One row of \<^verbatim>\<open>binding_list_model\<close>: the item of column 0 carries the shown text, the
  serialized package (role \<^verbatim>\<open>UserRole + 1\<close>, the empty string while unset) and the id of
  its marker (role \<^verbatim>\<open>data_role_dot\<close>); columns 1 and 2 hold the coordinates. A coordinate
  cell is kept as the integer that \<^verbatim>\<open>toInt()\<close> reads from its text. Between two events the
  text of such a cell is always \<^verbatim>\<open>QString::number\<close> of that integer: the dialog writes no
  other text, and a text written by the user is replaced by \<open>OnBindingChanged\<close> as soon as
  it differs from the one before.
\<close>

record binding_row =
  btn_text :: label
  btn_data :: string
  btn_dot :: "int option"
  xcoord :: int
  ycoord :: int

text \<open>A marker of \<^verbatim>\<open>TouchScreenPreview::dots\<close>: its id and the properties \<^verbatim>\<open>prop_x\<close>, \<^verbatim>\<open>prop_y\<close>.\<close>

type_synonym dot = "int \<times> int \<times> int"

text \<open>
  \<^verbatim>\<open>input_setter\<close> is the closure of \<^verbatim>\<open>GetButtonInput\<close>; it is kept as what it captures,
  \<^verbatim>\<open>row_index\<close> and \<^verbatim>\<open>is_new\<close>. A timer is \<open>None\<close> while stopped and holds its interval in
  milliseconds while running. The selection of the view (current row, highlighted marker,
  the state of the delete-binding button) stays with Qt. \<open>calls\<close> records every invocation
  \<^verbatim>\<open>(*input_setter)(params, cancel)\<close> with its arguments, oldest first.
\<close>

record dialog =
  touch_maps :: "TouchFromButtonMap list"
  selected_index :: int
  rows :: "binding_row list"
  dots :: "dot list"
  max_dot_id :: int
  input_setter :: "(nat \<times> bool) option"
  button_delete_enabled :: bool
  timeout_timer :: "nat option"
  poll_timer :: "nat option"
  pollers_started :: bool
  grabbed :: bool
  calls :: "(ParamPackage \<times> bool) list"

text \<open>Indexing a \<^verbatim>\<open>std::vector\<close> out of range is undefined behaviour: \<open>None\<close>.\<close>

definition at_index :: "'a list \<Rightarrow> int \<Rightarrow> 'a option" where
  "at_index xs i = (if 0 \<le> i \<and> i < int (length xs) then Some (xs ! nat i) else None)"

subsection \<open>Markers\<close>

definition AddDot :: "int \<Rightarrow> int \<Rightarrow> dialog \<Rightarrow> int \<times> dialog" where
  "AddDot device_x device_y s =
     (max_dot_id s + 1,
      s\<lparr>max_dot_id := max_dot_id s + 1,
        dots := dots s @ [(max_dot_id s + 1, device_x, device_y)]\<rparr>)"

fun RemoveDot :: "int \<Rightarrow> dot list \<Rightarrow> dot list" where
  "RemoveDot i [] = []"
| "RemoveDot i (d # ds) = (if fst d = i then ds else d # RemoveDot i ds)"

fun MoveDot :: "int \<Rightarrow> int \<Rightarrow> int \<Rightarrow> dot list \<Rightarrow> dot list" where
  "MoveDot i device_x device_y [] = []"
| "MoveDot i device_x device_y (d # ds) =
     (if fst d = i then (i, device_x, device_y) # ds else d # MoveDot i device_x device_y ds)"

subsection \<open>Rows and the signal \<^verbatim>\<open>rowsAboutToBeRemoved\<close>\<close>

fun OnBindingDeleted_loop :: "binding_row list \<Rightarrow> nat list \<Rightarrow> dot list \<Rightarrow> dot list" where
  "OnBindingDeleted_loop rs [] ds = ds"
| "OnBindingDeleted_loop rs (i # is) ds =
     (if length rs \<le> i then ds
      else OnBindingDeleted_loop rs is
             (case btn_dot (rs ! i) of None \<Rightarrow> ds | Some d \<Rightarrow> RemoveDot d ds))"

definition OnBindingDeleted :: "nat \<Rightarrow> nat \<Rightarrow> dialog \<Rightarrow> dialog" where
  "OnBindingDeleted first_row last_row s =
     s\<lparr>dots := OnBindingDeleted_loop (rows s) [first_row ..< Suc last_row] (dots s)\<rparr>"

text \<open>
  \<^verbatim>\<open>QStandardItemModel::removeRows(row, count)\<close>: a range that is empty or not inside the
  model removes nothing and emits nothing; otherwise \<^verbatim>\<open>rowsAboutToBeRemoved\<close> is emitted
  (connected to \<^verbatim>\<open>OnBindingDeleted\<close>) and then the rows go.
\<close>

definition removeRows :: "nat \<Rightarrow> nat \<Rightarrow> dialog \<Rightarrow> dialog" where
  "removeRows row count s =
     (if count < 1 \<or> length (rows s) < row + count then s
      else let s1 = OnBindingDeleted row (row + count - 1) s
           in s1\<lparr>rows := take row (rows s1) @ drop (row + count) (rows s1)\<rparr>)"

definition removeRow :: "nat \<Rightarrow> dialog \<Rightarrow> dialog" where
  "removeRow row s = removeRows row 1 s"

subsection \<open>Profiles\<close>

definition add_button_row :: "dialog \<Rightarrow> string \<Rightarrow> dialog" where
  \<comment> \<open>the body of the loop of \<^verbatim>\<open>UpdateUiDisplay\<close>\<close>
  "add_button_row s button_str =
     (let package = Parse button_str;
          (dot_id, s1) = AddDot (Get_int package ''x'' 0) (Get_int package ''y'' 0) s
      in s1\<lparr>rows := rows s1 @
            [\<lparr>btn_text = ButtonToText package, btn_data = button_str, btn_dot = Some dot_id,
              xcoord = Get_int package ''x'' 0, ycoord = Get_int package ''y'' 0\<rparr>]\<rparr>)"

definition UpdateUiDisplay :: "dialog \<Rightarrow> dialog option" where
  "UpdateUiDisplay s =
     (let s1 = removeRows 0 (length (rows s))
                 (s\<lparr>button_delete_enabled := (1 < length (touch_maps s))\<rparr>)
      in case at_index (touch_maps s1) (selected_index s1) of
           None \<Rightarrow> None
         | Some m \<Rightarrow> Some (foldl add_button_row s1 (buttons m)))"

definition saved_button :: "binding_row \<Rightarrow> string option" where
  \<comment> \<open>the body of the loop of \<^verbatim>\<open>SaveCurrentMapping\<close>: \<open>None\<close> where it continues\<close>
  "saved_button r =
     (if btn_data r = [] then None
      else let params = Parse (btn_data r)
           in if \<not> Has params ''engine'' then None
              else Some (Serialize (Set_int (Set_int params ''x'' (xcoord r)) ''y'' (ycoord r))))"

definition SaveCurrentMapping :: "dialog \<Rightarrow> dialog option" where
  "SaveCurrentMapping s =
     (case at_index (touch_maps s) (selected_index s) of
        None \<Rightarrow> None
      | Some m \<Rightarrow>
          Some (s\<lparr>touch_maps := (touch_maps s)
                   [nat (selected_index s) := m\<lparr>buttons := List.map_filter saved_button (rows s)\<rparr>]\<rparr>))"

definition mapping_activated :: "int \<Rightarrow> dialog \<Rightarrow> dialog option" where
  \<comment> \<open>the slot connected to \<^verbatim>\<open>QComboBox::activated\<close> in \<^verbatim>\<open>ConnectEvents\<close>\<close>
  "mapping_activated index s =
     do { s1 \<leftarrow> SaveCurrentMapping s; UpdateUiDisplay (s1\<lparr>selected_index := index\<rparr>) }"

definition NewMapping :: "string \<Rightarrow> dialog \<Rightarrow> dialog option" where
  \<comment> \<open>\<open>nm\<close> is the text returned by \<^verbatim>\<open>QInputDialog::getText\<close>\<close>
  "NewMapping nm s =
     (if nm = [] then Some s
      else do {
        s1 \<leftarrow> (if 0 < selected_index s then SaveCurrentMapping s else Some s);
        UpdateUiDisplay
          (s1\<lparr>touch_maps := touch_maps s1 @ [\<lparr>name = nm, buttons = []\<rparr>],
              selected_index := int (length (touch_maps s1) + 1) - 1\<rparr>) })"

definition erase_profile :: "dialog \<Rightarrow> dialog" where
  \<comment> \<open>\<^verbatim>\<open>touch_maps.erase(touch_maps.begin() + selected_index)\<close> and the new selection\<close>
  "erase_profile s =
     (let k = nat (selected_index s);
          maps = take k (touch_maps s) @ drop (Suc k) (touch_maps s)
      in s\<lparr>touch_maps := maps, selected_index := (if length maps \<noteq> 0 then 0 else - 1)\<rparr>)"

definition DeleteMapping :: "bool \<Rightarrow> dialog \<Rightarrow> dialog option" where
  \<comment> \<open>\<open>yes\<close> tells whether \<^verbatim>\<open>QMessageBox::question\<close> was answered with Yes; erasing at an
      index outside the vector is undefined behaviour\<close>
  "DeleteMapping yes s =
     (if \<not> yes then Some s
      else if \<not> (0 \<le> selected_index s \<and> selected_index s < int (length (touch_maps s))) then None
      else UpdateUiDisplay (erase_profile s))"

definition RenameMapping :: "string \<Rightarrow> dialog \<Rightarrow> dialog option" where
  "RenameMapping new_name s =
     (if new_name = [] then Some s
      else case at_index (touch_maps s) (selected_index s) of
             None \<Rightarrow> None
           | Some m \<Rightarrow> Some (s\<lparr>touch_maps := (touch_maps s)
                               [nat (selected_index s) := m\<lparr>name := new_name\<rparr>]\<rparr>))"

definition initial_max_dot_id :: int where
  \<comment> \<open>Modelled from the spec: the declaration of \<^verbatim>\<open>max_dot_id\<close> (configure_touch_widget.h) is
      missing; ids increase within an editing session, here from 1 on.\<close>
  "initial_max_dot_id = 0"

text \<open>
  The constructor: empty model, no marker yet, then \<^verbatim>\<open>SetConfiguration\<close> (which only fills
  the combo box) and \<^verbatim>\<open>UpdateUiDisplay\<close>.
\<close>

definition ConfigureTouchFromButton :: "TouchFromButtonMap list \<Rightarrow> int \<Rightarrow> dialog option" where
  "ConfigureTouchFromButton maps default_index =
     UpdateUiDisplay
       \<lparr>touch_maps = maps, selected_index = default_index, rows = [], dots = [],
        max_dot_id = initial_max_dot_id, input_setter = None, button_delete_enabled = False,
        timeout_timer = None, poll_timer = None, pollers_started = False, grabbed = False,
        calls = []\<rparr>"

subsection \<open>The capture session\<close>

definition GetButtonInput :: "nat \<Rightarrow> bool \<Rightarrow> dialog \<Rightarrow> dialog option" where
  \<comment> \<open>\<^verbatim>\<open>item(row_index, 0)\<close> is a null pointer when the model has no such row\<close>
  "GetButtonInput row_index is_new s =
     (if length (rows s) \<le> row_index then None
      else Some (s\<lparr>rows := (rows s)[row_index := (rows s ! row_index)\<lparr>btn_text := PressKey\<rparr>],
                  input_setter := Some (row_index, is_new),
                  pollers_started := True, grabbed := True,
                  timeout_timer := Some 5000, poll_timer := Some 200\<rparr>))"

definition run_input_setter :: "nat \<times> bool \<Rightarrow> ParamPackage \<Rightarrow> bool \<Rightarrow> dialog \<Rightarrow> dialog option" where
  \<comment> \<open>the body of the closure stored in \<^verbatim>\<open>input_setter\<close>\<close>
  "run_input_setter c params cancel s =
     (let row_index = fst c; is_new = snd c
      in if \<not> cancel then
           (if length (rows s) \<le> row_index then None
            else Some (s\<lparr>rows := (rows s)[row_index := (rows s ! row_index)
                          \<lparr>btn_text := ButtonToText params, btn_data := Serialize params\<rparr>]\<rparr>))
         else if is_new then Some (removeRow row_index s)
         else if length (rows s) \<le> row_index then None
         else Some (s\<lparr>rows := (rows s)[row_index := (rows s ! row_index)
                       \<lparr>btn_text := ButtonToText (Parse (btn_data (rows s ! row_index)))\<rparr>]\<rparr>))"

definition SetPollingResult :: "ParamPackage \<Rightarrow> bool \<Rightarrow> dialog \<Rightarrow> dialog option" where
  "SetPollingResult params cancel s =
     (let s1 = s\<lparr>grabbed := False, timeout_timer := None, poll_timer := None,
                 pollers_started := False\<rparr>
      in case input_setter s1 of
           None \<Rightarrow> Some s1
         | Some c \<Rightarrow>
             do { s2 \<leftarrow> run_input_setter c params cancel (s1\<lparr>calls := calls s1 @ [(params, cancel)]\<rparr>);
                  Some (s2\<lparr>input_setter := None\<rparr>) })"

definition timeout_slot :: "dialog \<Rightarrow> dialog option" where
  \<comment> \<open>the slot of \<^verbatim>\<open>timeout_timer\<close>\<close>
  "timeout_slot s = SetPollingResult [] True s"

definition poll_slot :: "ParamPackage list \<Rightarrow> dialog \<Rightarrow> dialog option" where
  \<comment> \<open>the slot of \<^verbatim>\<open>poll_timer\<close>; \<open>inputs\<close> is what the pollers of \<^verbatim>\<open>device_pollers\<close>
      answer to \<^verbatim>\<open>GetNextInput\<close>, in list order\<close>
  "poll_slot inputs s =
     (case find (\<lambda>params. Has params ''engine'') inputs of
        None \<Rightarrow> Some s
      | Some params \<Rightarrow> SetPollingResult params False s)"

subsection \<open>Bindings\<close>

definition NewBinding :: "int \<Rightarrow> int \<Rightarrow> dialog \<Rightarrow> dialog option" where
  "NewBinding pos_x pos_y s =
     (let (dot_id, s1) = AddDot pos_x pos_y s;
          s2 = s1\<lparr>rows := rows s1 @
                 [\<lparr>btn_text = Blank, btn_data = [], btn_dot = Some dot_id,
                   xcoord = pos_x, ycoord = pos_y\<rparr>]\<rparr>
      in GetButtonInput (length (rows s2) - 1) True s2)"

definition EditBinding :: "int \<Rightarrow> int \<Rightarrow> dialog \<Rightarrow> dialog option" where
  "EditBinding qi_row qi_column s =
     (if 0 \<le> qi_row \<and> qi_column = 0 then GetButtonInput (nat qi_row) False s else Some s)"

definition dot_of_row :: "dialog \<Rightarrow> int \<Rightarrow> int" where
  \<comment> \<open>\<^verbatim>\<open>index(row, 0).data(data_role_dot).toInt()\<close>: 0 for an invalid index or an unset role\<close>
  "dot_of_row s row =
     (case at_index (rows s) row of
        None \<Rightarrow> 0
      | Some r \<Rightarrow> (case btn_dot r of None \<Rightarrow> 0 | Some d \<Rightarrow> d))"

definition DeleteBinding :: "int \<Rightarrow> dialog \<Rightarrow> dialog" where
  \<comment> \<open>\<open>current_row\<close> is \<^verbatim>\<open>ui->binding_list->currentIndex().row()\<close>, - 1 when no row is current\<close>
  "DeleteBinding current_row s =
     (if 0 \<le> current_row then
        removeRow (nat current_row) (s\<lparr>dots := RemoveDot (dot_of_row s current_row) (dots s)\<rparr>)
      else s)"

definition kScreenBottomWidth :: int where
  \<comment> \<open>Modelled from the spec: \<^verbatim>\<open>core/3ds.h\<close> is missing; the touch surface is 320 by 240.\<close>
  "kScreenBottomWidth = 320"

definition kScreenBottomHeight :: int where
  \<comment> \<open>Modelled from the spec: \<^verbatim>\<open>core/3ds.h\<close> is missing; the touch surface is 320 by 240.\<close>
  "kScreenBottomHeight = 240"

definition clamp :: "int \<Rightarrow> int \<Rightarrow> int \<Rightarrow> int" where
  \<comment> \<open>\<^verbatim>\<open>std::clamp(v, lo, hi)\<close>\<close>
  "clamp v lo hi = (if v < lo then lo else if hi < v then hi else v)"

definition OnBindingChanged :: "nat \<Rightarrow> nat \<Rightarrow> dialog \<Rightarrow> dialog" where
  \<comment> \<open>\<open>row\<close> and \<open>column\<close> are those of the changed item, which is an item of the model\<close>
  "OnBindingChanged row column s =
     (if column = 0 \<or> length (rows s) \<le> row then s
      else let r = rows s ! row;
               r1 = (if column = 1 then r\<lparr>xcoord := clamp (xcoord r) 0 (kScreenBottomWidth - 1)\<rparr>
                     else r\<lparr>ycoord := clamp (ycoord r) 0 (kScreenBottomHeight - 1)\<rparr>);
               s1 = s\<lparr>rows := (rows s)[row := r1]\<rparr>
           in case btn_dot r1 of
                None \<Rightarrow> s1
              | Some d \<Rightarrow> s1\<lparr>dots := MoveDot d (xcoord r1) (ycoord r1) (dots s1)\<rparr>)"

definition set_coordinate_text :: "nat \<Rightarrow> nat \<Rightarrow> int \<Rightarrow> bool \<Rightarrow> dialog \<Rightarrow> dialog" where
  \<comment> \<open>a text written into a coordinate cell: \<open>v\<close> is what \<^verbatim>\<open>toInt()\<close> reads from it, \<open>canonical\<close>
      tells whether it is the text \<^verbatim>\<open>QString::number(v)\<close>. It equals the text of the cell
      exactly when it is canonical and \<open>v\<close> is the value of the cell; then
      \<^verbatim>\<open>QStandardItem::setData\<close> returns at once. Otherwise the text is stored and the model
      emits \<^verbatim>\<open>itemChanged\<close>, connected to \<^verbatim>\<open>OnBindingChanged\<close>. The coordinate cells are
      those of columns 1 and 2.\<close>
  "set_coordinate_text row column v canonical s =
     (if length (rows s) \<le> row \<or> (column \<noteq> 1 \<and> column \<noteq> 2) then s
      else let r = rows s ! row
           in if canonical \<and> v = (if column = 1 then xcoord r else ycoord r) then s
              else OnBindingChanged row column
                     (s\<lparr>rows := (rows s)[row := (if column = 1 then r\<lparr>xcoord := v\<rparr>
                                                 else r\<lparr>ycoord := v\<rparr>)]\<rparr>))"

definition SetCoordinates :: "int \<Rightarrow> int \<Rightarrow> int \<Rightarrow> dialog \<Rightarrow> dialog" where
  "SetCoordinates dot_id pos_x pos_y s =
     (case find (\<lambda>i. btn_dot (rows s ! i) = Some dot_id) [0 ..< length (rows s)] of
        None \<Rightarrow> s
      | Some i \<Rightarrow> set_coordinate_text i 2 pos_y True (set_coordinate_text i 1 pos_x True s))"

definition keyPressEvent :: "int \<Rightarrow> int \<Rightarrow> dialog \<Rightarrow> dialog option" where
  \<comment> \<open>\<open>current_row\<close> as in \<open>DeleteBinding\<close>; \<^verbatim>\<open>QDialog::keyPressEvent\<close> leaves this state alone\<close>
  "keyPressEvent key current_row s =
     (if input_setter s = None \<and> key = Key_Delete then Some (DeleteBinding current_row s)
      else if input_setter s = None then Some s
      else if key \<noteq> Key_Escape then SetPollingResult (Parse (GenerateKeyboardParam key)) False s
      else SetPollingResult [] True s)"

definition ApplyConfiguration :: "dialog \<Rightarrow> dialog option" where
  "ApplyConfiguration s = SaveCurrentMapping s"

subsection \<open>Events\<close>

text \<open>
  What the event loop delivers to the dialog. Between \<^verbatim>\<open>grabMouse\<close>/\<^verbatim>\<open>grabKeyboard\<close> in
  \<^verbatim>\<open>GetButtonInput\<close> and their release in \<^verbatim>\<open>SetPollingResult\<close> every mouse and key event
  goes to the dialog itself, so that the signals of the child widgets do not fire; the
  delete-profile button fires only while enabled.
\<close>

datatype event =
    DotAdded int int
  | DotMoved int int int
  | DoubleClicked int int
  | DeleteBindClicked int
  | CellEdited nat nat int bool
  | KeyPress int int
  | TimerTimeout
  | PollTick "ParamPackage list"
  | MappingActivated int
  | NewClicked string
  | DeleteClicked bool
  | RenameClicked string
  | Accepted

fun step :: "event \<Rightarrow> dialog \<Rightarrow> dialog option" where
  "step (KeyPress key current_row) s = keyPressEvent key current_row s"
| "step TimerTimeout s = timeout_slot s"
| "step (PollTick inputs) s = poll_slot inputs s"
| "step (DotAdded x y) s = (if grabbed s then Some s else NewBinding x y s)"
| "step (DotMoved dot_id x y) s = (if grabbed s then Some s else Some (SetCoordinates dot_id x y s))"
| "step (DoubleClicked row column) s = (if grabbed s then Some s else EditBinding row column s)"
| "step (DeleteBindClicked current_row) s =
     (if grabbed s then Some s else Some (DeleteBinding current_row s))"
| "step (CellEdited row column v canonical) s =
     (if grabbed s then Some s else Some (set_coordinate_text row column v canonical s))"
| "step (MappingActivated index) s = (if grabbed s then Some s else mapping_activated index s)"
| "step (NewClicked nm) s = (if grabbed s then Some s else NewMapping nm s)"
| "step (DeleteClicked yes) s =
     (if grabbed s \<or> \<not> button_delete_enabled s then Some s else DeleteMapping yes s)"
| "step (RenameClicked nm) s = (if grabbed s then Some s else RenameMapping nm s)"
| "step Accepted s = (if grabbed s then Some s else ApplyConfiguration s)"

fun run :: "event list \<Rightarrow> dialog \<Rightarrow> dialog option" where
  "run [] s = Some s"
| "run (e # es) s = (case step e s of None \<Rightarrow> None | Some s1 \<Rightarrow> run es s1)"

subsection \<open>Single-precision arithmetic\<close>

text \<open>
  \<^verbatim>\<open>MapToDeviceCoords\<close> and \<^verbatim>\<open>PositionDot\<close> compute in \<^verbatim>\<open>float\<close>. A finite binary32 value is
  kept as the rational number it denotes, and every operation rounds its exact result to
  the nearest binary32 value, ties to even: 24 significant bits, with the fixed spacing
  \<open>2 powi (- 149)\<close> below \<open>2 powi (- 126)\<close>. The operands here come from 32-bit integers, far
  from the overflow threshold, so infinities arise only from a division by zero, which the
  callers treat apart.
\<close>

definition rne :: "rat \<Rightarrow> int" where
  \<comment> \<open>the nearest integer, the even one of two at equal distance\<close>
  "rne m = (let f = \<lfloor>m\<rfloor>; d = m - of_int f
            in if d < 1 / 2 then f else if 1 / 2 < d then f + 1
               else if even f then f else f + 1)"

definition fexp :: "rat \<Rightarrow> int" where
  \<comment> \<open>for \<open>0 < v\<close> the exponent \<open>e\<close> with \<open>2 powi e \<le> v < 2 powi (e + 1)\<close>\<close>
  "fexp v = (if 1 \<le> v then bitlen \<lfloor>v\<rfloor> - 1 else - bitlen (\<lceil>1 / v\<rceil> - 1))"

definition ulp :: "rat \<Rightarrow> rat" where
  "ulp v = 2 powi (max (fexp v) (- 126) - 23)"

definition fl :: "rat \<Rightarrow> rat" where
  "fl v = (if v < 0 then - (of_int (rne (- v / ulp (- v))) * ulp (- v))
           else of_int (rne (v / ulp v)) * ulp v)"

definition fmul :: "rat \<Rightarrow> rat \<Rightarrow> rat" where "fmul a b = fl (a * b)"
definition fdiv :: "rat \<Rightarrow> rat \<Rightarrow> rat" where "fdiv a b = fl (a / b)"
definition fadd :: "rat \<Rightarrow> rat \<Rightarrow> rat" where "fadd a b = fl (a + b)"

definition float_of_int :: "int \<Rightarrow> rat" where
  \<comment> \<open>\<^verbatim>\<open>static_cast<float>\<close> of an \<^verbatim>\<open>int\<close>, and the implicit conversion of an \<^verbatim>\<open>int\<close> operand\<close>
  "float_of_int i = fl (of_int i)"

definition int_of_float :: "rat \<Rightarrow> int" where
  \<comment> \<open>\<^verbatim>\<open>static_cast<int>\<close> of a \<^verbatim>\<open>float\<close>: truncation towards zero\<close>
  "int_of_float v = (if 0 \<le> v then \<lfloor>v\<rfloor> else \<lceil>v\<rceil>)"

subsection \<open>TouchScreenPreview: device and widget coordinates\<close>

text \<open>What the two functions read from the widget: \<^verbatim>\<open>contentsMargins()\<close> and \<^verbatim>\<open>contentsRect()\<close>.\<close>

record preview =
  margin_left :: int
  margin_top :: int
  content_width :: int
  content_height :: int

definition device_coord :: "int \<Rightarrow> int \<Rightarrow> int \<Rightarrow> int \<Rightarrow> rat" where
  \<comment> \<open>the expression of \<^verbatim>\<open>t_x\<close> and of \<^verbatim>\<open>t_y\<close> in \<^verbatim>\<open>MapToDeviceCoords\<close>, for one axis of the
      device of size \<open>n\<close>\<close>
  "device_coord n margin extent screen =
     fadd (1 / 2)
       (fdiv (fmul (float_of_int (screen - margin)) (float_of_int (n - 1))) (float_of_int extent))"

definition MapToDeviceCoords :: "preview \<Rightarrow> int \<Rightarrow> int \<Rightarrow> (int \<times> int) option" where
  \<comment> \<open>a division by a zero width or height gives an infinity or a NaN, which fails the
      range test\<close>
  "MapToDeviceCoords g screen_x screen_y =
     (if content_width g = 0 \<or> content_height g = 0 then None
      else let t_x = device_coord kScreenBottomWidth (margin_left g) (content_width g) screen_x;
               t_y = device_coord kScreenBottomHeight (margin_top g) (content_height g) screen_y
           in if 1 / 2 \<le> t_x \<and> t_x < float_of_int kScreenBottomWidth \<and>
                 1 / 2 \<le> t_y \<and> t_y < float_of_int kScreenBottomHeight
              then Some (int_of_float t_x, int_of_float t_y) else None)"




subsection \<open>What an event means to a capture session\<close>

text \<open>
  The events that reach the dialog while it captures, and the arguments with which an event
  ends an active session: a key press, the timeout, or a poll tick in which some poller
  reports a package with an engine (the first such package in the order of the pollers).
\<close>

fun capture_event :: "event \<Rightarrow> bool" where
  "capture_event (KeyPress key current_row) = True"
| "capture_event TimerTimeout = True"
| "capture_event (PollTick inputs) = True"
| "capture_event _ = False"

fun capture_outcome :: "event \<Rightarrow> (ParamPackage \<times> bool) option" where
  "capture_outcome (KeyPress key current_row) =
     Some (if key \<noteq> Key_Escape then (Parse (GenerateKeyboardParam key), False) else ([], True))"
| "capture_outcome TimerTimeout = Some ([], True)"
| "capture_outcome (PollTick inputs) =
     map_option (\<lambda>params. (params, False)) (find (\<lambda>params. Has params ''engine'') inputs)"
| "capture_outcome _ = None"

fun first_outcome :: "event list \<Rightarrow> (ParamPackage \<times> bool) option" where
  "first_outcome [] = None"
| "first_outcome (e # es) =
     (case capture_outcome e of None \<Rightarrow> first_outcome es | Some c \<Rightarrow> Some c)"

subsection \<open>Invariants\<close>

text \<open>The profile list is not empty and the delete-profile button is enabled only with more
  than one profile.\<close>

definition profiles_ok :: "dialog \<Rightarrow> bool" where
  "profiles_ok s = (touch_maps s \<noteq> [] \<and> button_delete_enabled s = (1 < length (touch_maps s)))"

text \<open>
  Rows and markers correspond position by position, each row carrying the id of its marker;
  marker ids are distinct, positive and not above \<open>max_dot_id\<close>; the dialog holds the grab
  exactly while a setter is stored, and the row the setter captured exists.
\<close>

definition paired :: "binding_row list \<Rightarrow> dot list \<Rightarrow> bool" where
  "paired rs ds = (map btn_dot rs = map (\<lambda>d. Some (fst d)) ds \<and> distinct (map fst ds))"

definition markers_ok :: "dialog \<Rightarrow> bool" where
  "markers_ok s =
     (paired (rows s) (dots s) \<and>
      list_all (\<lambda>d. 0 < fst d \<and> fst d \<le> max_dot_id s) (dots s) \<and> 0 \<le> max_dot_id s \<and>
      grabbed s = (input_setter s \<noteq> None) \<and>
      (case input_setter s of None \<Rightarrow> True | Some c \<Rightarrow> fst c < length (rows s)))"

text \<open>The events that edit bindings: they never touch the profiles.\<close>

fun binding_event :: "event \<Rightarrow> bool" where
  "binding_event (DotAdded x y) = True"
| "binding_event (DotMoved dot_id x y) = True"
| "binding_event (DeleteBindClicked current_row) = True"
| "binding_event (CellEdited row column v canonical) = True"
| "binding_event (KeyPress key current_row) = True"
| "binding_event TimerTimeout = True"
| "binding_event (PollTick inputs) = True"
| "binding_event _ = False"

text \<open>
  Coordinates inside the device range, for a point, for a row of the model and for a stored
  button string. The signal \<^verbatim>\<open>DotAdded\<close> carries a point that \<open>MapToDeviceCoords\<close> returned,
  which is such a point.
\<close>

definition device_point :: "int \<Rightarrow> int \<Rightarrow> bool" where
  "device_point x y = (0 \<le> x \<and> x < kScreenBottomWidth \<and> 0 \<le> y \<and> y < kScreenBottomHeight)"

definition row_in_range :: "binding_row \<Rightarrow> bool" where
  "row_in_range r = device_point (xcoord r) (ycoord r)"

definition button_in_range :: "string \<Rightarrow> bool" where
  "button_in_range b = device_point (Get_int (Parse b) ''x'' 0) (Get_int (Parse b) ''y'' 0)"

definition store_in_range :: "TouchFromButtonMap list \<Rightarrow> bool" where
  "store_in_range maps = list_all (\<lambda>m. list_all button_in_range (buttons m)) maps"

definition coords_ok :: "dialog \<Rightarrow> bool" where
  "coords_ok s = (list_all row_in_range (rows s) \<and> store_in_range (touch_maps s))"

fun preview_event :: "event \<Rightarrow> bool" where
  "preview_event (DotAdded x y) = device_point x y"
| "preview_event _ = True"

definition mousePressEvent :: "preview \<Rightarrow> bool \<Rightarrow> int \<Rightarrow> int \<Rightarrow> event option" where
  \<comment> \<open>\<^verbatim>\<open>TouchScreenPreview::mousePressEvent\<close>: \<open>left\<close> tells whether the button is the left one;
      the result is the signal emitted, if any. It is the only place that emits \<^verbatim>\<open>DotAdded\<close>.\<close>
  "mousePressEvent g left screen_x screen_y =
     (if left then map_option (\<lambda>(x, y). DotAdded x y) (MapToDeviceCoords g screen_x screen_y)
      else None)"

subsection \<open>Example states\<close>

definition unbound_row_dialog :: dialog where
  \<comment> \<open>a dialog opened on a profile whose second button string has no engine\<close>
  "unbound_row_dialog =
     \<lparr>touch_maps = [\<lparr>name = ''Default'',
                     buttons = [''engine:keyboard,code:65,x:10,y:20'', ''x:5,y:5'']\<rparr>],
      selected_index = 0,
      rows = [\<lparr>btn_text = KeySequence 65, btn_data = ''engine:keyboard,code:65,x:10,y:20'',
               btn_dot = Some 1, xcoord = 10, ycoord = 20\<rparr>,
              \<lparr>btn_text = NotSet, btn_data = ''x:5,y:5'', btn_dot = Some 2, xcoord = 5, ycoord = 5\<rparr>],
      dots = [(1, 10, 20), (2, 5, 5)], max_dot_id = 2, input_setter = None,
      button_delete_enabled = False, timeout_timer = None, poll_timer = None,
      pollers_started = False, grabbed = False, calls = []\<rparr>"

definition out_of_range_maps :: "TouchFromButtonMap list" where
  "out_of_range_maps = [\<lparr>name = ''Default'', buttons = [''engine:keyboard,code:65,x:-5,y:1000'']\<rparr>]"

definition one_profile_dialog :: dialog where
  "one_profile_dialog =
     \<lparr>touch_maps = [\<lparr>name = ''Default'', buttons = []\<rparr>], selected_index = 0,
      rows = [], dots = [], max_dot_id = 0, input_setter = None,
      button_delete_enabled = False, timeout_timer = None, poll_timer = None,
      pollers_started = False, grabbed = False, calls = []\<rparr>"

definition edited_dialog :: dialog where
  \<comment> \<open>\<open>one_profile_dialog\<close> after a click on the preview at (10, 10) and a press of key 66\<close>
  "edited_dialog =
     \<lparr>touch_maps = [\<lparr>name = ''Default'', buttons = []\<rparr>], selected_index = 0,
      rows = [\<lparr>btn_text = KeySequence 66, btn_data = ''engine:keyboard,code:66'', btn_dot = Some 1,
               xcoord = 10, ycoord = 10\<rparr>],
      dots = [(1, 10, 10)], max_dot_id = 1, input_setter = None,
      button_delete_enabled = False, timeout_timer = None, poll_timer = None,
      pollers_started = False, grabbed = False,
      calls = [([(''engine'', ''keyboard''), (''code'', ''66'')], False)]\<rparr>"



section \<open>Properties\<close>

subsection \<open>The text format of packages\<close>


lemma split_on_not_Nil [simp]: "split_on c s \<noteq> []"
  by (induction s) (auto split: list.splits)

lemma split_on_no_delim: "c \<notin> set w \<Longrightarrow> split_on c w = [w]"
  by (induction w) auto

lemma split_on_append: "c \<notin> set w \<Longrightarrow> split_on c (w @ c # rest) = w # split_on c rest"
  by (induction w) auto

lemma split_on_pieces: "w \<in> set (split_on c s) \<Longrightarrow> c \<notin> set w \<and> set w \<subseteq> set s"
proof (induction s arbitrary: w)
  case Nil
  then show ?case by simp
next
  case (Cons x xs)
  obtain u us where sp: "split_on c xs = u # us"
    by (cases "split_on c xs") auto
  have u: "c \<notin> set u \<and> set u \<subseteq> set xs" using Cons.IH [of u] sp by simp
  show ?case
  proof (cases "x = c")
    case True
    with Cons.prems have "w = [] \<or> w \<in> set (split_on c xs)" by auto
    with Cons.IH show ?thesis by auto
  next
    case False
    with Cons.prems sp have "w = x # u \<or> w \<in> set us" by auto
    then show ?thesis
    proof
      assume "w = x # u"
      with u False show ?thesis by auto
    next
      assume "w \<in> set us"
      with Cons.IH [of w] sp show ?thesis by auto
    qed
  qed
qed

lemma clean_iff:
  "clean p = (distinct (map fst p) \<and> (\<forall>kv \<in> set p. clean_text (fst kv) \<and> clean_text (snd kv)))"
  by (simp add: clean_def list_all_iff)

lemma Set_param_keys: "fst ` set (Set_param p k v) = insert k (fst ` set p)"
proof (induction p)
  case Nil
  then show ?case by simp
next
  case (Cons a p)
  then show ?case by (cases a) (simp add: insert_commute)
qed

lemma Set_param_set: "set (Set_param p k v) \<subseteq> insert (k, v) (set p)"
  by (induction p) (auto split: if_splits)

lemma Set_param_distinct: "distinct (map fst p) \<Longrightarrow> distinct (map fst (Set_param p k v))"
proof (induction p)
  case Nil
  then show ?case by simp
next
  case (Cons a p)
  then show ?case using Set_param_keys [of p k v] by (cases a) auto
qed

lemma Set_param_clean: "clean p \<Longrightarrow> clean_text k \<Longrightarrow> clean_text v \<Longrightarrow> clean (Set_param p k v)"
  unfolding clean_iff using Set_param_set [of p k v] by (auto simp: Set_param_distinct)

lemma Has_Set_param: "Has (Set_param p k v) k' = (k' = k \<or> Has p k')"
  by (induction p) (auto simp: Has_def split: if_splits)

lemma Set_param_fresh: "k \<notin> fst ` set p \<Longrightarrow> Set_param p k v = p @ [(k, v)]"
  by (induction p) auto

lemma Get_Set_param_same: "Get (Set_param p k v) k d = v"
  by (induction p) (auto simp: Get_def)

lemma Get_Set_param_other: "k' \<noteq> k \<Longrightarrow> Get (Set_param p k v) k' d = Get p k' d"
  by (induction p) (auto simp: Get_def)

lemma Serialize_split:
  "clean p \<Longrightarrow> p \<noteq> [] \<Longrightarrow>
   split_on CHR '','' (Serialize p) = map (\<lambda>kv. fst kv @ CHR '':'' # snd kv) p"
proof (induction p rule: Serialize.induct)
  case 1
  then show ?case by simp
next
  case (2 k v)
  then have "CHR '','' \<notin> set (k @ CHR '':'' # v)" by (simp add: clean_iff clean_text_def)
  then show ?case using split_on_no_delim by simp
next
  case (3 k v q p)
  from "3.prems" have c: "CHR '','' \<notin> set (k @ CHR '':'' # v)" and cl: "clean (q # p)"
    by (auto simp: clean_iff clean_text_def)
  have "Serialize ((k, v) # q # p) = (k @ CHR '':'' # v) @ CHR '','' # Serialize (q # p)"
    by simp
  then have "split_on CHR '','' (Serialize ((k, v) # q # p)) =
      (k @ CHR '':'' # v) # split_on CHR '','' (Serialize (q # p))"
    using split_on_append [OF c] by simp
  with "3.IH" [OF cl] show ?case by simp
qed

lemma pair_split:
  "clean_text k \<Longrightarrow> clean_text v \<Longrightarrow> split_on CHR '':'' (k @ CHR '':'' # v) = [k, v]"
  using split_on_append [of "CHR '':''" k v] split_on_no_delim [of "CHR '':''" v]
  by (simp add: clean_text_def)

lemma foldl_add_pair:
  "distinct (map fst (acc @ p)) \<Longrightarrow>
   foldl add_pair acc (map (\<lambda>kv. [fst kv, snd kv]) p) = acc @ p"
proof (induction p arbitrary: acc)
  case Nil
  then show ?case by simp
next
  case (Cons a p)
  have fresh: "fst a \<notin> fst ` set acc" using Cons.prems by auto
  have "add_pair acc [fst a, snd a] = acc @ [a]"
    using Set_param_fresh [OF fresh, of "snd a"] by simp
  moreover have "distinct (map fst ((acc @ [a]) @ p))" using Cons.prems by simp
  ultimately show ?case using Cons.IH [of "acc @ [a]"] by simp
qed

lemma Parse_Serialize: "clean p \<Longrightarrow> Parse (Serialize p) = p"
proof (cases "p = []")
  case True
  then show ?thesis by (simp add: Parse_def)
next
  case False
  assume cl: "clean p"
  have pieces: "map (split_on CHR '':'') (split_on CHR '','' (Serialize p)) =
      map (\<lambda>kv. [fst kv, snd kv]) p"
    using cl by (simp add: Serialize_split [OF cl False] pair_split clean_iff)
  have "list_all (\<lambda>kv. length kv = 2) (map (\<lambda>kv. [fst kv, snd kv]) p)"
    by (simp add: list_all_iff)
  moreover have "foldl add_pair [] (map (\<lambda>kv. [fst kv, snd kv]) p) = p"
    using foldl_add_pair [of "[]" p] cl by (simp add: clean_iff)
  ultimately show ?thesis by (simp add: Parse_def pieces)
qed

lemma add_pair_clean:
  "clean acc \<Longrightarrow> \<forall>w \<in> set pc. clean_text w \<Longrightarrow> clean (add_pair acc pc)"
  by (cases "(acc, pc)" rule: add_pair.cases) (simp_all add: Set_param_clean)

lemma foldl_add_pair_clean:
  "clean acc \<Longrightarrow> \<forall>pc \<in> set pieces. \<forall>w \<in> set pc. clean_text w \<Longrightarrow>
   clean (foldl add_pair acc pieces)"
  by (induction pieces arbitrary: acc) (simp_all add: add_pair_clean)

lemma Parse_clean: "clean (Parse s)"
proof -
  have "\<forall>pc \<in> set (map (split_on CHR '':'') (split_on CHR '','' s)). \<forall>w \<in> set pc. clean_text w"
  proof (intro ballI)
    fix pc w
    assume "pc \<in> set (map (split_on CHR '':'') (split_on CHR '','' s))" and w: "w \<in> set pc"
    then obtain u where u: "u \<in> set (split_on CHR '','' s)" and pc: "pc = split_on CHR '':'' u"
      by auto
    from split_on_pieces [OF u] have "CHR '','' \<notin> set u" by simp
    moreover from w pc split_on_pieces [of w "CHR '':''" u]
    have "CHR '':'' \<notin> set w" "set w \<subseteq> set u" by auto
    ultimately show "clean_text w" by (auto simp: clean_text_def)
  qed
  moreover have "clean []" by (simp add: clean_iff)
  ultimately show ?thesis by (simp add: Parse_def Let_def foldl_add_pair_clean)
qed

lemma digit_chars_nth: "n < 10 \<Longrightarrow> digit_chars ! n \<in> set digit_chars"
proof -
  assume "n < 10"
  then have "n < length digit_chars" by (simp add: digit_chars_def)
  then show ?thesis by (rule nth_mem)
qed

lemma show_nat_digits: "set (show_nat n) \<subseteq> set digit_chars"
proof (induction n rule: show_nat.induct)
  case (1 n)
  show ?case
  proof (cases "n < 10")
    case True
    then show ?thesis using digit_chars_nth [of n] by (subst show_nat.simps) simp
  next
    case False
    have "n mod 10 < 10" by simp
    then have "digit_chars ! (n mod 10) \<in> set digit_chars" by (rule digit_chars_nth)
    with False "1.IH" show ?thesis by (subst show_nat.simps) simp
  qed
qed

lemma show_int_clean: "clean_text (show_int i)"
proof -
  have "CHR '','' \<notin> set digit_chars" "CHR '':'' \<notin> set digit_chars"
    by (simp_all add: digit_chars_def)
  then have "CHR '','' \<notin> set (show_nat n)" "CHR '':'' \<notin> set (show_nat n)" for n
    using show_nat_digits [of n] by auto
  then show ?thesis by (simp add: show_int_def clean_text_def)
qed

lemma Set_int_clean: "clean p \<Longrightarrow> clean_text k \<Longrightarrow> clean (Set_int p k i)"
  by (simp add: Set_int_def Set_param_clean show_int_clean)

subsection \<open>What the operations leave alone\<close>


lemma removeRows_frame [simp]:
  "touch_maps (removeRows r n s) = touch_maps s"
  "selected_index (removeRows r n s) = selected_index s"
  "button_delete_enabled (removeRows r n s) = button_delete_enabled s"
  "input_setter (removeRows r n s) = input_setter s"
  "grabbed (removeRows r n s) = grabbed s"
  "max_dot_id (removeRows r n s) = max_dot_id s"
  "calls (removeRows r n s) = calls s"
  "timeout_timer (removeRows r n s) = timeout_timer s"
  "poll_timer (removeRows r n s) = poll_timer s"
  "pollers_started (removeRows r n s) = pollers_started s"
  by (simp_all add: removeRows_def OnBindingDeleted_def Let_def)

lemma add_rows_frame [simp]:
  "touch_maps (foldl add_button_row s bs) = touch_maps s"
  "selected_index (foldl add_button_row s bs) = selected_index s"
  "button_delete_enabled (foldl add_button_row s bs) = button_delete_enabled s"
  "input_setter (foldl add_button_row s bs) = input_setter s"
  "grabbed (foldl add_button_row s bs) = grabbed s"
  "calls (foldl add_button_row s bs) = calls s"
  by (induction bs arbitrary: s) (simp_all add: add_button_row_def AddDot_def Let_def)

lemma UpdateUiDisplay_frame:
  assumes "UpdateUiDisplay s = Some s'"
  shows "touch_maps s' = touch_maps s" "selected_index s' = selected_index s"
    "input_setter s' = input_setter s" "grabbed s' = grabbed s" "calls s' = calls s"
    "profiles_ok s'"
proof -
  let ?s1 = "removeRows 0 (length (rows s)) (s\<lparr>button_delete_enabled := (1 < length (touch_maps s))\<rparr>)"
  from assms obtain m where m: "at_index (touch_maps ?s1) (selected_index ?s1) = Some m"
    and s': "s' = foldl add_button_row ?s1 (buttons m)"
    by (auto simp: UpdateUiDisplay_def Let_def split: option.splits)
  from m have ne: "touch_maps s \<noteq> []" by (auto simp: at_index_def split: if_splits)
  show "touch_maps s' = touch_maps s" "selected_index s' = selected_index s"
    "input_setter s' = input_setter s" "grabbed s' = grabbed s" "calls s' = calls s"
    by (simp_all add: s')
  show "profiles_ok s'" using ne by (simp add: s' profiles_ok_def)
qed

lemma SaveCurrentMapping_frame:
  assumes "SaveCurrentMapping s = Some s'"
  shows "length (touch_maps s') = length (touch_maps s)" "selected_index s' = selected_index s"
    "button_delete_enabled s' = button_delete_enabled s" "grabbed s' = grabbed s"
    "input_setter s' = input_setter s" "rows s' = rows s" "dots s' = dots s"
    "max_dot_id s' = max_dot_id s" "calls s' = calls s"
  using assms by (auto simp: SaveCurrentMapping_def split: option.splits)

lemma RenameMapping_frame:
  assumes "RenameMapping nm s = Some s'"
  shows "length (touch_maps s') = length (touch_maps s)"
    "button_delete_enabled s' = button_delete_enabled s"
  using assms by (auto simp: RenameMapping_def split: option.splits if_splits)

lemma SetPollingResult_profiles:
  assumes "SetPollingResult params cancel s = Some s'"
  shows "touch_maps s' = touch_maps s" "button_delete_enabled s' = button_delete_enabled s"
    "selected_index s' = selected_index s"
  using assms
  by (auto simp: SetPollingResult_def run_input_setter_def removeRow_def Let_def
      split: option.splits if_splits Option.bind_splits)

lemma GetButtonInput_profiles:
  assumes "GetButtonInput r n s = Some s'"
  shows "touch_maps s' = touch_maps s" "button_delete_enabled s' = button_delete_enabled s"
    "selected_index s' = selected_index s"
  using assms by (auto simp: GetButtonInput_def split: if_splits)

lemma DeleteBinding_profiles [simp]:
  "touch_maps (DeleteBinding c s) = touch_maps s"
  "button_delete_enabled (DeleteBinding c s) = button_delete_enabled s"
  "selected_index (DeleteBinding c s) = selected_index s"
  by (simp_all add: DeleteBinding_def removeRow_def)

lemma OnBindingChanged_profiles [simp]:
  "touch_maps (OnBindingChanged r c s) = touch_maps s"
  "button_delete_enabled (OnBindingChanged r c s) = button_delete_enabled s"
  "selected_index (OnBindingChanged r c s) = selected_index s"
  by (simp_all add: OnBindingChanged_def Let_def split: option.splits)

lemma set_coordinate_text_profiles [simp]:
  "touch_maps (set_coordinate_text r c v t s) = touch_maps s"
  "button_delete_enabled (set_coordinate_text r c v t s) = button_delete_enabled s"
  "selected_index (set_coordinate_text r c v t s) = selected_index s"
  by (simp_all add: set_coordinate_text_def Let_def)

lemma SetCoordinates_profiles [simp]:
  "touch_maps (SetCoordinates d x y s) = touch_maps s"
  "button_delete_enabled (SetCoordinates d x y s) = button_delete_enabled s"
  "selected_index (SetCoordinates d x y s) = selected_index s"
  by (simp_all add: SetCoordinates_def split: option.splits)

lemma NewBinding_profiles:
  assumes "NewBinding x y s = Some s'"
  shows "touch_maps s' = touch_maps s" "button_delete_enabled s' = button_delete_enabled s"
    "selected_index s' = selected_index s"
  using assms
  by (auto simp: NewBinding_def AddDot_def Let_def GetButtonInput_def split: if_splits)

lemma step_profiles_ok:
  assumes "profiles_ok s" and "step e s = Some s'"
  shows "profiles_ok s'"
proof (cases e)
  case (DotAdded x y)
  with assms show ?thesis
    by (auto simp: profiles_ok_def split: if_splits dest: NewBinding_profiles)
next
  case (DotMoved d x y)
  with assms show ?thesis by (auto simp: profiles_ok_def split: if_splits)
next
  case (DoubleClicked r c)
  with assms show ?thesis
    by (auto simp: profiles_ok_def EditBinding_def split: if_splits dest: GetButtonInput_profiles)
next
  case (DeleteBindClicked c)
  with assms show ?thesis by (auto simp: profiles_ok_def split: if_splits)
next
  case (CellEdited r c v t)
  with assms show ?thesis by (auto simp: profiles_ok_def split: if_splits)
next
  case (KeyPress k c)
  with assms show ?thesis
    by (auto simp: profiles_ok_def keyPressEvent_def split: if_splits
        dest: SetPollingResult_profiles)
next
  case TimerTimeout
  with assms show ?thesis
    by (auto simp: profiles_ok_def timeout_slot_def dest: SetPollingResult_profiles)
next
  case (PollTick ps)
  with assms show ?thesis
    by (auto simp: profiles_ok_def poll_slot_def split: option.splits
        dest: SetPollingResult_profiles)
next
  case (MappingActivated i)
  with assms show ?thesis
    by (auto simp: mapping_activated_def split: if_splits Option.bind_splits
        dest: UpdateUiDisplay_frame(6))
next
  case (NewClicked nm)
  with assms show ?thesis
    by (auto simp: NewMapping_def split: if_splits Option.bind_splits
        dest: UpdateUiDisplay_frame(6))
next
  case (DeleteClicked yes)
  with assms show ?thesis
    by (auto simp: DeleteMapping_def split: if_splits dest: UpdateUiDisplay_frame(6))
next
  case (RenameClicked nm)
  with assms show ?thesis
    by (auto simp: profiles_ok_def split: if_splits dest: RenameMapping_frame)
next
  case Accepted
  with assms show ?thesis
    by (auto simp: profiles_ok_def ApplyConfiguration_def split: if_splits
        dest: SaveCurrentMapping_frame)
qed

lemma run_profiles_ok: "profiles_ok s \<Longrightarrow> run es s = Some s' \<Longrightarrow> profiles_ok s'"
  by (induction es arbitrary: s) (auto split: option.splits dest: step_profiles_ok)

lemma ConfigureTouchFromButton_profiles_ok:
  "ConfigureTouchFromButton maps i = Some s \<Longrightarrow> profiles_ok s"
  unfolding ConfigureTouchFromButton_def by (rule UpdateUiDisplay_frame(6))

subsection \<open>Committing the current profile\<close>


lemma saved_button_bound:
  assumes "saved_button r = Some b"
  shows "Has (Parse b) ''engine''"
proof -
  let ?params = "Parse (btn_data r)"
  let ?q = "Set_int (Set_int ?params ''x'' (xcoord r)) ''y'' (ycoord r)"
  from assms have has: "Has ?params ''engine''" and b: "b = Serialize ?q"
    by (auto simp: saved_button_def Let_def split: if_splits)
  have "clean ?q"
    by (intro Set_int_clean Parse_clean) (simp_all add: clean_text_def)
  then have "Parse b = ?q" using b by (simp add: Parse_Serialize)
  moreover have "Has ?q ''engine''" using has by (simp add: Set_int_def Has_Set_param)
  ultimately show ?thesis by simp
qed

lemma saved_button_None:
  "(saved_button r = None) = (\<not> Has (Parse (btn_data r)) ''engine'')"
proof (cases "btn_data r = []")
  case True
  have "Parse [] = []" by (simp add: Parse_def)
  with True show ?thesis by (simp add: saved_button_def Has_def)
next
  case False
  then show ?thesis by (simp add: saved_button_def Let_def)
qed

lemma map_filter_saved_button:
  "List.map_filter saved_button rs =
     map (\<lambda>r. Serialize (Set_int (Set_int (Parse (btn_data r)) ''x'' (xcoord r)) ''y'' (ycoord r)))
       (filter (\<lambda>r. Has (Parse (btn_data r)) ''engine'') rs)"
proof (induction rs)
  case Nil
  then show ?case by (simp add: List.map_filter_simps)
next
  case (Cons r rs)
  show ?case
  proof (cases "saved_button r")
    case None
    with Cons saved_button_None [of r] show ?thesis by (simp add: List.map_filter_simps)
  next
    case (Some b)
    then have "Has (Parse (btn_data r)) ''engine''" using saved_button_None [of r] by simp
    moreover from Some
    have "b = Serialize (Set_int (Set_int (Parse (btn_data r)) ''x'' (xcoord r)) ''y'' (ycoord r))"
      by (auto simp: saved_button_def Let_def split: if_splits)
    ultimately show ?thesis using Cons Some by (simp add: List.map_filter_simps)
  qed
qed

text \<open>
  C9. Committing the current profile writes one string for every row whose stored
  package has an engine, in row order, and none for the other rows (empty data or no
  engine key); every string written parses to a package that has an engine.
\<close>

theorem C9_saved_buttons_bound:
  assumes "0 \<le> selected_index s" and "selected_index s < int (length (touch_maps s))"
  shows "\<exists>s'. SaveCurrentMapping s = Some s' \<and>
           buttons (touch_maps s' ! nat (selected_index s)) =
             map (\<lambda>r. Serialize (Set_int (Set_int (Parse (btn_data r)) ''x'' (xcoord r)) ''y'' (ycoord r)))
               (filter (\<lambda>r. Has (Parse (btn_data r)) ''engine'') (rows s)) \<and>
           list_all (\<lambda>b. Has (Parse b) ''engine'') (buttons (touch_maps s' ! nat (selected_index s)))"
proof -
  let ?k = "nat (selected_index s)"
  let ?bs = "List.map_filter saved_button (rows s)"
  from assms have k: "?k < length (touch_maps s)" by simp
  with assms have "SaveCurrentMapping s =
      Some (s\<lparr>touch_maps := (touch_maps s)[?k := (touch_maps s ! ?k)\<lparr>buttons := ?bs\<rparr>]\<rparr>)"
    by (simp add: SaveCurrentMapping_def at_index_def)
  moreover have "list_all (\<lambda>b. Has (Parse b) ''engine'') ?bs"
    by (auto simp: list_all_iff List.map_filter_def dest: saved_button_bound)
  ultimately show ?thesis using k by (simp add: map_filter_saved_button [symmetric])
qed

theorem C9_saved_buttons_bound_witness:
  "ConfigureTouchFromButton (touch_maps unbound_row_dialog) 0 = Some unbound_row_dialog \<and>
   (\<exists>s'. SaveCurrentMapping unbound_row_dialog = Some s' \<and>
         buttons (touch_maps s' ! 0) = [''engine:keyboard,code:65,x:10,y:20''] \<and>
         list_all (\<lambda>b. Has (Parse b) ''engine'') (buttons (touch_maps s' ! 0)))"
proof -
  have c: "ConfigureTouchFromButton (touch_maps unbound_row_dialog) 0 = Some unbound_row_dialog"
    by code_simp
  have a: "0 \<le> selected_index unbound_row_dialog"
    and b: "selected_index unbound_row_dialog < int (length (touch_maps unbound_row_dialog))"
    by (simp_all add: unbound_row_dialog_def)
  have k: "nat (selected_index unbound_row_dialog) = 0"
    by (simp add: unbound_row_dialog_def)
  have rs: "map (\<lambda>r. Serialize (Set_int (Set_int (Parse (btn_data r)) ''x'' (xcoord r)) ''y'' (ycoord r)))
        (filter (\<lambda>r. Has (Parse (btn_data r)) ''engine'') (rows unbound_row_dialog)) =
      [''engine:keyboard,code:65,x:10,y:20'']"
    by code_simp
  from C9_saved_buttons_bound [OF a b] have
    "\<exists>s'. SaveCurrentMapping unbound_row_dialog = Some s' \<and>
       buttons (touch_maps s' ! 0) = [''engine:keyboard,code:65,x:10,y:20''] \<and>
       list_all (\<lambda>b. Has (Parse b) ''engine'') (buttons (touch_maps s' ! 0))"
    unfolding k rs .
  with c show ?thesis by (rule conjI)
qed

subsection \<open>Resolving a capture for an existing binding\<close>


lemma removeRows_all_rows [simp]: "rows (removeRows 0 (length (rows s)) s) = []"
  by (simp add: removeRows_def OnBindingDeleted_def Let_def)

text \<open>
  C10. A capture started by \<open>EditBinding\<close> for an existing row and resolved with a package
  changes nothing but the text and the data of column 0 of that row: its coordinates and
  its marker id, every other row, and the markers stay as they were.
\<close>

theorem C10_edit_resolution_frame:
  assumes "r < length (rows s)"
  shows "\<exists>s1 s2. EditBinding (int r) 0 s = Some s1 \<and> SetPollingResult params False s1 = Some s2 \<and>
           rows s2 = (rows s)[r := (rows s ! r)\<lparr>btn_text := ButtonToText params,
                                               btn_data := Serialize params\<rparr>] \<and>
           xcoord (rows s2 ! r) = xcoord (rows s ! r) \<and>
           ycoord (rows s2 ! r) = ycoord (rows s ! r) \<and>
           btn_dot (rows s2 ! r) = btn_dot (rows s ! r) \<and>
           dots s2 = dots s \<and> max_dot_id s2 = max_dot_id s \<and> touch_maps s2 = touch_maps s"
  using assms
  by (simp add: EditBinding_def GetButtonInput_def SetPollingResult_def run_input_setter_def
      Let_def)

theorem C10_edit_resolution_frame_witness:
  "\<exists>s1 s2. EditBinding 0 0 unbound_row_dialog = Some s1 \<and>
     SetPollingResult [(''engine'', ''keyboard''), (''code'', ''66'')] False s1 = Some s2 \<and>
     rows s2 =
       [\<lparr>btn_text = KeySequence 66, btn_data = ''engine:keyboard,code:66'', btn_dot = Some 1,
         xcoord = 10, ycoord = 20\<rparr>,
        \<lparr>btn_text = NotSet, btn_data = ''x:5,y:5'', btn_dot = Some 2, xcoord = 5, ycoord = 5\<rparr>] \<and>
     dots s2 = [(1, 10, 20), (2, 5, 5)]"
proof -
  have a: "0 < length (rows unbound_row_dialog)" by (simp add: unbound_row_dialog_def)
  have t: "ButtonToText [(''engine'', ''keyboard''), (''code'', ''66'')] = KeySequence 66"
    by code_simp
  from C10_edit_resolution_frame [OF a, of "[(''engine'', ''keyboard''), (''code'', ''66'')]"]
  show ?thesis by (auto simp: t unbound_row_dialog_def)
qed
subsection \<open>Deleting a profile\<close>

text \<open>
  C3. \<open>DeleteMapping\<close> is a private slot whose only connection is the click of the
  delete-profile button, which \<open>UpdateUiDisplay\<close> enables only while there is more than one
  profile. In every state that the dialog reaches from its construction through events, the
  profile list is not empty, and while it holds exactly one profile a request to delete it
  is not delivered and leaves the whole state (profile list, selected index, bindings) as
  it was.
\<close>

theorem C3_last_profile_kept:
  assumes "ConfigureTouchFromButton maps i = Some s0" and "run es s0 = Some s"
  shows "touch_maps s \<noteq> [] \<and>
         (length (touch_maps s) = 1 \<longrightarrow> step (DeleteClicked yes) s = Some s)"
proof -
  have "profiles_ok s"
    using assms by (blast intro: run_profiles_ok ConfigureTouchFromButton_profiles_ok)
  then show ?thesis by (simp add: profiles_ok_def)
qed

theorem C3_last_profile_kept_witness:
  "run [NewClicked ''Custom'', DeleteClicked True] one_profile_dialog = Some one_profile_dialog \<and>
   touch_maps one_profile_dialog \<noteq> [] \<and>
   step (DeleteClicked True) one_profile_dialog = Some one_profile_dialog"
proof -
  have a: "ConfigureTouchFromButton [\<lparr>name = ''Default'', buttons = []\<rparr>] 0 = Some one_profile_dialog"
    by code_simp
  have b: "run [NewClicked ''Custom'', DeleteClicked True] one_profile_dialog = Some one_profile_dialog"
    by code_simp
  have c: "length (touch_maps one_profile_dialog) = 1" by (simp add: one_profile_dialog_def)
  show ?thesis using C3_last_profile_kept [OF a b, of True] b c by simp
qed

subsection \<open>Creating a profile\<close>

text \<open>
  C4. With profile 0 selected, \<open>NewMapping\<close> does not commit the rows of the current profile
  before it switches: the binding added to profile 0 is neither in the store nor in the
  model afterwards. Selecting a profile in the combo box from the same state does commit it,
  and so does \<open>NewMapping\<close> when the selected index is greater than 0.
\<close>

theorem C4_NewMapping_drops_edits_of_profile_0:
  "run [DotAdded 10 10, KeyPress 66 (- 1)] one_profile_dialog = Some edited_dialog \<and>
   map_option (\<lambda>s. (map buttons (touch_maps s), selected_index s, rows s))
     (NewMapping ''Custom'' edited_dialog) = Some ([[], []], 1, []) \<and>
   map_option (\<lambda>s. map buttons (touch_maps s)) (mapping_activated 0 edited_dialog) =
     Some [[''engine:keyboard,code:66,x:10,y:10'']] \<and>
   map_option (\<lambda>s. map buttons (touch_maps s))
     (NewMapping ''Custom''
        (edited_dialog\<lparr>touch_maps := [\<lparr>name = ''First'', buttons = []\<rparr>,
                                        \<lparr>name = ''Default'', buttons = []\<rparr>],
                        selected_index := 1\<rparr>)) =
     Some [[], [''engine:keyboard,code:66,x:10,y:10''], []]"
  by code_simp

subsection \<open>Ending a capture session\<close>


lemma keyboard_param:
  "Parse (GenerateKeyboardParam key) = [(''engine'', ''keyboard''), (''code'', show_int key)]"
proof -
  have "clean [(''engine'', ''keyboard''), (''code'', show_int key)]"
    using show_int_clean [of key] by (simp add: clean_def clean_text_def)
  then have "Parse (Serialize [(''engine'', ''keyboard''), (''code'', show_int key)]) =
      [(''engine'', ''keyboard''), (''code'', show_int key)]"
    by (rule Parse_Serialize)
  moreover have "Set_int (Set_param [] ''engine'' ''keyboard'') ''code'' key =
      [(''engine'', ''keyboard''), (''code'', show_int key)]"
    by (simp add: Set_int_def)
  ultimately show ?thesis unfolding GenerateKeyboardParam_def by (simp only:)
qed

lemma SetPollingResult_active:
  assumes "input_setter s = Some c" and "fst c < length (rows s)"
  shows "\<exists>s'. SetPollingResult params cancel s = Some s' \<and>
           calls s' = calls s @ [(params, cancel)] \<and> input_setter s' = None \<and>
           timeout_timer s' = None \<and> poll_timer s' = None \<and> \<not> grabbed s' \<and>
           \<not> pollers_started s'"
  using assms
  by (cases c) (simp add: SetPollingResult_def run_input_setter_def removeRow_def Let_def)

lemma SetPollingResult_idle:
  assumes "input_setter s = None"
  shows "\<exists>s'. SetPollingResult params cancel s = Some s' \<and> calls s' = calls s \<and>
           input_setter s' = None \<and> rows s' = rows s \<and> dots s' = dots s"
  using assms by (simp add: SetPollingResult_def)

text \<open>
  C6. After \<open>GetButtonInput\<close> the timeout timer runs with 5000 ms and the poll timer with
  200 ms. In that state the handler of a key press other than Escape itself calls the
  setter with the keyboard package of that key and \<open>cancel = False\<close>, and ends the session;
  a press of Escape and the slot of the timeout timer call it with the empty package and
  \<open>cancel = True\<close>.
\<close>

theorem C6_key_resolves_escape_and_timeout_cancel:
  assumes "row_index < length (rows s)"
  shows "\<exists>s1. GetButtonInput row_index is_new s = Some s1 \<and>
           timeout_timer s1 = Some 5000 \<and> poll_timer s1 = Some 200 \<and>
           (key \<noteq> Key_Escape \<longrightarrow>
              (\<exists>s2. keyPressEvent key cur s1 = Some s2 \<and>
                 calls s2 = calls s @ [([(''engine'', ''keyboard''), (''code'', show_int key)], False)] \<and>
                 input_setter s2 = None \<and> timeout_timer s2 = None \<and> poll_timer s2 = None)) \<and>
           (\<exists>s2. keyPressEvent Key_Escape cur s1 = Some s2 \<and> calls s2 = calls s @ [([], True)] \<and>
                 input_setter s2 = None \<and> timeout_timer s2 = None \<and> poll_timer s2 = None) \<and>
           (\<exists>s2. timeout_slot s1 = Some s2 \<and> calls s2 = calls s @ [([], True)] \<and>
                 input_setter s2 = None \<and> timeout_timer s2 = None \<and> poll_timer s2 = None)"
proof -
  define s1 where "s1 = s\<lparr>rows := (rows s)[row_index := (rows s ! row_index)\<lparr>btn_text := PressKey\<rparr>],
      input_setter := Some (row_index, is_new), pollers_started := True, grabbed := True,
      timeout_timer := Some 5000, poll_timer := Some 200\<rparr>"
  have g: "GetButtonInput row_index is_new s = Some s1"
    using assms by (simp add: GetButtonInput_def s1_def)
  have act: "input_setter s1 = Some (row_index, is_new)" "fst (row_index, is_new) < length (rows s1)"
    using assms by (simp_all add: s1_def)
  have c: "calls s1 = calls s" by (simp add: s1_def)
  have t: "timeout_timer s1 = Some 5000" "poll_timer s1 = Some 200" by (simp_all add: s1_def)
  note r = SetPollingResult_active [OF act]
  have k: "key \<noteq> Key_Escape \<longrightarrow>
      (\<exists>s2. keyPressEvent key cur s1 = Some s2 \<and>
         calls s2 = calls s @ [([(''engine'', ''keyboard''), (''code'', show_int key)], False)] \<and>
         input_setter s2 = None \<and> timeout_timer s2 = None \<and> poll_timer s2 = None)"
    using r [of "Parse (GenerateKeyboardParam key)" False] act(1)
    by (auto simp: keyPressEvent_def keyboard_param c)
  have e: "\<exists>s2. keyPressEvent Key_Escape cur s1 = Some s2 \<and> calls s2 = calls s @ [([], True)] \<and>
      input_setter s2 = None \<and> timeout_timer s2 = None \<and> poll_timer s2 = None"
    using r [of "[]" True] act(1) by (auto simp: keyPressEvent_def c)
  have to: "\<exists>s2. timeout_slot s1 = Some s2 \<and> calls s2 = calls s @ [([], True)] \<and>
      input_setter s2 = None \<and> timeout_timer s2 = None \<and> poll_timer s2 = None"
    using r [of "[]" True] by (auto simp: timeout_slot_def c)
  from g t k e to show ?thesis by blast
qed

theorem C6_key_resolves_escape_and_timeout_cancel_witness:
  "\<exists>s1. GetButtonInput 0 False edited_dialog = Some s1 \<and>
     timeout_timer s1 = Some 5000 \<and> poll_timer s1 = Some 200 \<and>
     (\<exists>s2. keyPressEvent 65 0 s1 = Some s2 \<and>
        calls s2 = calls edited_dialog @ [([(''engine'', ''keyboard''), (''code'', ''65'')], False)] \<and>
        input_setter s2 = None \<and> timeout_timer s2 = None \<and> poll_timer s2 = None)"
proof -
  have a: "0 < length (rows edited_dialog)" by (simp add: edited_dialog_def)
  have k: "(65::int) \<noteq> Key_Escape" by (simp add: Key_Escape_def)
  have sh: "show_int 65 = ''65''" by code_simp
  from C6_key_resolves_escape_and_timeout_cancel [OF a, of False 65 0] k
  show ?thesis unfolding sh by blast
qed

subsection \<open>Cancelling the capture of a new binding\<close>


lemma RemoveDot_absent: "i \<notin> fst ` set ds \<Longrightarrow> RemoveDot i ds = ds"
  by (induction ds) auto

lemma RemoveDot_last: "i \<notin> fst ` set ds \<Longrightarrow> RemoveDot i (ds @ [(i, x, y)]) = ds"
  by (induction ds) auto

text \<open>
  C5. From a state whose marker ids do not exceed \<open>max_dot_id\<close>, \<open>NewBinding\<close> adds one row
  and one marker and starts a capture; when that capture is cancelled, by Escape or by the
  timeout, the rows and the markers are again exactly those before \<open>NewBinding\<close>.
\<close>

theorem C5_cancelled_new_binding_removed:
  assumes "list_all (\<lambda>d. fst d \<le> max_dot_id s) (dots s)"
  shows "\<exists>s1. NewBinding x y s = Some s1 \<and>
           length (rows s1) = Suc (length (rows s)) \<and> length (dots s1) = Suc (length (dots s)) \<and>
           (\<exists>s2. keyPressEvent Key_Escape cur s1 = Some s2 \<and> rows s2 = rows s \<and> dots s2 = dots s \<and>
                 calls s2 = calls s @ [([], True)]) \<and>
           (\<exists>s2. timeout_slot s1 = Some s2 \<and> rows s2 = rows s \<and> dots s2 = dots s \<and>
                 calls s2 = calls s @ [([], True)])"
proof -
  let ?i = "max_dot_id s + 1"
  let ?n = "length (rows s)"
  let ?row = "\<lparr>btn_text = Blank, btn_data = [], btn_dot = Some ?i, xcoord = x, ycoord = y\<rparr>"
  define s1 where "s1 = s\<lparr>max_dot_id := ?i, dots := dots s @ [(?i, x, y)],
      rows := (rows s @ [?row])[?n := ?row\<lparr>btn_text := PressKey\<rparr>],
      input_setter := Some (?n, True), pollers_started := True, grabbed := True,
      timeout_timer := Some 5000, poll_timer := Some 200\<rparr>"
  have fresh: "?i \<notin> fst ` set (dots s)"
    using assms by (auto simp: list_all_iff)
  have n: "NewBinding x y s = Some s1"
    by (simp add: NewBinding_def AddDot_def GetButtonInput_def Let_def s1_def nth_append)
  have len: "length (rows s1) = Suc ?n" "length (dots s1) = Suc (length (dots s))"
    by (simp_all add: s1_def)
  have cancel: "SetPollingResult [] True s1 =
      Some (s\<lparr>max_dot_id := ?i, pollers_started := False, grabbed := False,
               timeout_timer := None, poll_timer := None, calls := calls s @ [([], True)],
               input_setter := None\<rparr>)"
    by (simp add: SetPollingResult_def run_input_setter_def removeRow_def removeRows_def
        OnBindingDeleted_def Let_def s1_def RemoveDot_last [OF fresh])
  have e: "\<exists>s2. keyPressEvent Key_Escape cur s1 = Some s2 \<and> rows s2 = rows s \<and> dots s2 = dots s \<and>
      calls s2 = calls s @ [([], True)]"
    unfolding keyPressEvent_def cancel using cancel by (simp add: s1_def)
  have t: "\<exists>s2. timeout_slot s1 = Some s2 \<and> rows s2 = rows s \<and> dots s2 = dots s \<and>
      calls s2 = calls s @ [([], True)]"
    unfolding timeout_slot_def cancel by simp
  from n len e t show ?thesis by blast
qed

theorem C5_cancelled_new_binding_removed_witness:
  "\<exists>s1. NewBinding 5 5 edited_dialog = Some s1 \<and>
     length (rows s1) = 2 \<and> length (dots s1) = 2 \<and>
     (\<exists>s2. keyPressEvent Key_Escape 1 s1 = Some s2 \<and> rows s2 = rows edited_dialog \<and>
        dots s2 = dots edited_dialog \<and> calls s2 = calls edited_dialog @ [([], True)]) \<and>
     (\<exists>s2. timeout_slot s1 = Some s2 \<and> rows s2 = rows edited_dialog \<and>
        dots s2 = dots edited_dialog \<and> calls s2 = calls edited_dialog @ [([], True)])"
proof -
  have a: "list_all (\<lambda>d. fst d \<le> max_dot_id edited_dialog) (dots edited_dialog)"
    by (simp add: edited_dialog_def)
  have l: "Suc (length (rows edited_dialog)) = 2" "Suc (length (dots edited_dialog)) = 2"
    by (simp_all add: edited_dialog_def)
  show ?thesis using C5_cancelled_new_binding_removed [OF a, of 5 5 1] unfolding l .
qed

subsection \<open>One call of the setter per session\<close>


lemma step_idle:
  assumes "input_setter s = None" and "capture_event e"
  shows "\<exists>s'. step e s = Some s' \<and> calls s' = calls s \<and> input_setter s' = None"
proof (cases e)
  case (KeyPress key cur)
  with assms show ?thesis
    by (simp add: keyPressEvent_def DeleteBinding_def removeRow_def)
next
  case TimerTimeout
  with assms SetPollingResult_idle [of s "[]" True] show ?thesis
    by (auto simp: timeout_slot_def)
next
  case (PollTick inputs)
  show ?thesis
  proof (cases "find (\<lambda>params. Has params ''engine'') inputs")
    case None
    with PollTick assms show ?thesis by (simp add: poll_slot_def)
  next
    case (Some p)
    with PollTick assms SetPollingResult_idle [of s p False] show ?thesis
      by (auto simp: poll_slot_def)
  qed
qed (use assms in simp_all)

lemma run_idle:
  "input_setter s = None \<Longrightarrow> list_all capture_event es \<Longrightarrow>
   \<exists>s'. run es s = Some s' \<and> calls s' = calls s \<and> input_setter s' = None"
proof (induction es arbitrary: s)
  case Nil
  then show ?case by simp
next
  case (Cons e es)
  then obtain s1 where s1: "step e s = Some s1" "calls s1 = calls s" "input_setter s1 = None"
    using step_idle [of s e] by auto
  with Cons.IH [of s1] Cons.prems show ?case by auto
qed

lemma step_active:
  assumes "input_setter s = Some c" and "fst c < length (rows s)" and "capture_event e"
  shows "case capture_outcome e of
           None \<Rightarrow> step e s = Some s
         | Some a \<Rightarrow> (\<exists>s'. step e s = Some s' \<and> calls s' = calls s @ [a] \<and> input_setter s' = None)"
proof (cases e)
  case (KeyPress key cur)
  show ?thesis
  proof (cases "key = Key_Escape")
    case True
    with KeyPress assms SetPollingResult_active [OF assms(1,2), of "[]" True] show ?thesis
      by (auto simp: keyPressEvent_def)
  next
    case False
    with KeyPress assms
      SetPollingResult_active [OF assms(1,2), of "Parse (GenerateKeyboardParam key)" False]
    show ?thesis by (auto simp: keyPressEvent_def)
  qed
next
  case TimerTimeout
  with SetPollingResult_active [OF assms(1,2), of "[]" True] show ?thesis
    by (auto simp: timeout_slot_def)
next
  case (PollTick inputs)
  show ?thesis
  proof (cases "find (\<lambda>params. Has params ''engine'') inputs")
    case None
    with PollTick show ?thesis by (simp add: poll_slot_def)
  next
    case (Some p)
    with PollTick SetPollingResult_active [OF assms(1,2), of p False] show ?thesis
      by (auto simp: poll_slot_def)
  qed
qed (use assms in simp_all)

lemma run_active:
  "input_setter s = Some c \<Longrightarrow> fst c < length (rows s) \<Longrightarrow> list_all capture_event es \<Longrightarrow>
   \<exists>s'. run es s = Some s' \<and>
      calls s' = calls s @ (case first_outcome es of None \<Rightarrow> [] | Some a \<Rightarrow> [a]) \<and>
      (input_setter s' = None) = (first_outcome es \<noteq> None) \<and>
      (first_outcome es = None \<longrightarrow> s' = s)"
proof (induction es arbitrary: s)
  case Nil
  then show ?case by simp
next
  case (Cons e es)
  then have ce: "capture_event e" and ces: "list_all capture_event es" by simp_all
  show ?case
  proof (cases "capture_outcome e")
    case None
    with step_active [OF Cons.prems(1,2) ce] have "step e s = Some s" by simp
    with None Cons.IH [OF Cons.prems(1,2) ces] show ?thesis by simp
  next
    case (Some a)
    with step_active [OF Cons.prems(1,2) ce] obtain s1 where
      s1: "step e s = Some s1" "calls s1 = calls s @ [a]" "input_setter s1 = None"
      by auto
    from run_idle [OF s1(3) ces] obtain s' where
      "run es s1 = Some s'" "calls s' = calls s1" "input_setter s' = None" by auto
    with s1 Some show ?thesis by simp
  qed
qed

text \<open>
  C1. After \<open>GetButtonInput\<close> has started a session, let any sequence of key presses,
  timeouts and poll ticks arrive. The setter is called at most once; it is called exactly
  once as soon as the sequence holds an event that ends a session, with the arguments of
  the first such event (a package and \<open>False\<close>, or the empty package and \<open>True\<close>); later
  events do not call it again. While no such event has arrived, the session is still
  active and its timeout timer still runs.
\<close>

theorem C1_setter_called_exactly_once:
  assumes "row_index < length (rows s)" and "list_all capture_event es"
  shows "\<exists>s1 s'. GetButtonInput row_index is_new s = Some s1 \<and> run es s1 = Some s' \<and>
           calls s' = calls s @ (case first_outcome es of None \<Rightarrow> [] | Some a \<Rightarrow> [a]) \<and>
           (input_setter s' = None) = (first_outcome es \<noteq> None) \<and>
           (if TimerTimeout \<in> set es then length (calls s') = Suc (length (calls s))
            else length (calls s') \<le> Suc (length (calls s))) \<and>
           timeout_timer s1 = Some 5000 \<and> (first_outcome es = None \<longrightarrow> s' = s1)"
proof -
  define s1 where "s1 = s\<lparr>rows := (rows s)[row_index := (rows s ! row_index)\<lparr>btn_text := PressKey\<rparr>],
      input_setter := Some (row_index, is_new), pollers_started := True, grabbed := True,
      timeout_timer := Some 5000, poll_timer := Some 200\<rparr>"
  have g: "GetButtonInput row_index is_new s = Some s1"
    using assms(1) by (simp add: GetButtonInput_def s1_def)
  have act: "input_setter s1 = Some (row_index, is_new)" "fst (row_index, is_new) < length (rows s1)"
    using assms(1) by (simp_all add: s1_def)
  have c: "calls s1 = calls s" by (simp add: s1_def)
  from run_active [OF act assms(2)] obtain s' where
    r: "run es s1 = Some s'"
    and cs: "calls s' = calls s @ (case first_outcome es of None \<Rightarrow> [] | Some a \<Rightarrow> [a])"
    and i: "(input_setter s' = None) = (first_outcome es \<noteq> None)"
    and u: "first_outcome es = None \<longrightarrow> s' = s1"
    by (auto simp: c)
  have tt: "timeout_timer s1 = Some 5000" by (simp add: s1_def)
  have t: "TimerTimeout \<in> set es \<Longrightarrow> first_outcome es \<noteq> None" for es
    by (induction es) (auto split: option.splits)
  have l: "if TimerTimeout \<in> set es then length (calls s') = Suc (length (calls s))
        else length (calls s') \<le> Suc (length (calls s))"
    using cs t [of es] by (auto split: option.splits)
  from g r cs i l tt u show ?thesis
    by - (rule exI [of _ s1], rule exI [of _ s'], intro conjI, assumption+)
qed

theorem C1_setter_called_exactly_once_witness:
  "\<exists>s1 s'. GetButtonInput 0 False edited_dialog = Some s1 \<and>
     run [PollTick [[], [(''engine'', ''sdl''), (''button'', ''3'')]], KeyPress 65 0,
          TimerTimeout, KeyPress Key_Escape 0] s1 = Some s' \<and>
     calls s' = calls edited_dialog @ [([(''engine'', ''sdl''), (''button'', ''3'')], False)] \<and>
     input_setter s' = None \<and> length (calls s') = Suc (length (calls edited_dialog)) \<and>
     timeout_timer s1 = Some 5000"
proof -
  let ?es = "[PollTick [[], [(''engine'', ''sdl''), (''button'', ''3'')]], KeyPress 65 0,
          TimerTimeout, KeyPress Key_Escape 0]"
  have a: "0 < length (rows edited_dialog)" by (simp add: edited_dialog_def)
  have b: "list_all capture_event ?es" by simp
  have f: "first_outcome ?es = Some ([(''engine'', ''sdl''), (''button'', ''3'')], False)"
    by (simp add: Has_def)
  from C1_setter_called_exactly_once [OF a b, of False]
  show ?thesis unfolding f by simp
qed

subsection \<open>Rows and markers stay paired\<close>


lemma RemoveDot_nth:
  "distinct (map fst ds) \<Longrightarrow> k < length ds \<Longrightarrow>
   RemoveDot (fst (ds ! k)) ds = take k ds @ drop (Suc k) ds"
proof (induction ds arbitrary: k)
  case Nil
  then show ?case by simp
next
  case (Cons d ds)
  show ?case
  proof (cases k)
    case 0
    then show ?thesis by simp
  next
    case (Suc j)
    with Cons.prems have j: "j < length ds" and "fst (ds ! j) \<in> fst ` set ds" by auto
    with Cons.prems have "fst d \<noteq> fst (ds ! j)" by auto
    with Cons Suc j show ?thesis by simp
  qed
qed

lemma paired_length: "paired rs ds \<Longrightarrow> length rs = length ds"
  unfolding paired_def by (auto dest: map_eq_imp_length_eq)

lemma paired_nth: "paired rs ds \<Longrightarrow> k < length rs \<Longrightarrow> btn_dot (rs ! k) = Some (fst (ds ! k))"
proof -
  assume p: "paired rs ds" and k: "k < length rs"
  then have "map btn_dot rs ! k = map (\<lambda>d. Some (fst d)) ds ! k" by (simp add: paired_def)
  with k paired_length [OF p] show ?thesis by simp
qed

lemma distinct_remove_nth: "distinct xs \<Longrightarrow> distinct (take k xs @ drop (Suc k) xs)"
proof -
  assume d: "distinct xs"
  have "set (drop (Suc k) xs) \<subseteq> set (drop k xs)" by (rule set_drop_subset_set_drop) simp
  moreover from d have "set (take k xs) \<inter> set (drop k xs) = {}"
    using distinct_append [of "take k xs" "drop k xs"] by simp
  ultimately have "set (take k xs) \<inter> set (drop (Suc k) xs) = {}" by blast
  with d show ?thesis by simp
qed

lemma paired_remove:
  assumes "paired rs ds"
  shows "paired (take k rs @ drop (Suc k) rs) (take k ds @ drop (Suc k) ds)"
proof -
  from assms have m: "map btn_dot rs = map (\<lambda>d. Some (fst d)) ds" and d: "distinct (map fst ds)"
    by (simp_all add: paired_def)
  have "map btn_dot (take k rs @ drop (Suc k) rs) =
      take k (map btn_dot rs) @ drop (Suc k) (map btn_dot rs)"
    by (simp add: take_map drop_map)
  also have "\<dots> = map (\<lambda>d. Some (fst d)) (take k ds @ drop (Suc k) ds)"
    by (simp add: m take_map drop_map)
  finally have 1: "map btn_dot (take k rs @ drop (Suc k) rs) =
      map (\<lambda>d. Some (fst d)) (take k ds @ drop (Suc k) ds)" .
  have "map fst (take k ds @ drop (Suc k) ds) = take k (map fst ds) @ drop (Suc k) (map fst ds)"
    by (simp add: take_map drop_map)
  with distinct_remove_nth [OF d, of k] have 2: "distinct (map fst (take k ds @ drop (Suc k) ds))"
    by simp
  from 1 2 show ?thesis by (simp add: paired_def)
qed

lemma removeRow_paired:
  assumes "paired (rows s) (dots s)" and "k < length (rows s)"
  shows "rows (removeRow k s) = take k (rows s) @ drop (Suc k) (rows s)"
    and "dots (removeRow k s) = take k (dots s) @ drop (Suc k) (dots s)"
proof -
  from assms have kd: "k < length (dots s)" by (simp add: paired_length)
  from assms have d: "distinct (map fst (dots s))" by (simp add: paired_def)
  show "rows (removeRow k s) = take k (rows s) @ drop (Suc k) (rows s)"
    using assms(2) by (simp add: removeRow_def removeRows_def OnBindingDeleted_def Let_def)
  show "dots (removeRow k s) = take k (dots s) @ drop (Suc k) (dots s)"
    using assms(2) paired_nth [OF assms] RemoveDot_nth [OF d kd]
    by (simp add: removeRow_def removeRows_def OnBindingDeleted_def Let_def)
qed

lemma removeRow_out_of_range: "length (rows s) \<le> k \<Longrightarrow> removeRow k s = s"
  by (simp add: removeRow_def removeRows_def)

lemma removeRow_keeps_paired:
  assumes "paired (rows s) (dots s)"
  shows "paired (rows (removeRow k s)) (dots (removeRow k s))"
proof (cases "k < length (rows s)")
  case True
  with assms show ?thesis by (simp add: removeRow_paired paired_remove)
next
  case False
  with assms show ?thesis by (simp add: removeRow_out_of_range)
qed

lemma removeRow_dots_subset: "set (dots (removeRow k s)) \<subseteq> set (dots s)"
proof -
  have "set (RemoveDot i ds) \<subseteq> set ds" for i ds
    by (induction ds) auto
  then show ?thesis
    by (auto simp: removeRow_def removeRows_def OnBindingDeleted_def Let_def split: option.splits)
qed


lemma removeRow_frame [simp]:
  "max_dot_id (removeRow k s) = max_dot_id s"
  "input_setter (removeRow k s) = input_setter s"
  "grabbed (removeRow k s) = grabbed s"
  by (simp_all add: removeRow_def)

lemma nth_id_absent:
  assumes "distinct (map fst ds)" and "k < length ds"
  shows "fst (ds ! k) \<notin> fst ` set (take k ds @ drop (Suc k) ds)"
proof -
  have "ds = take k ds @ ds ! k # drop (Suc k) ds" using assms(2) by (rule id_take_nth_drop)
  then have "distinct (map fst (take k ds @ ds ! k # drop (Suc k) ds))" using assms(1) by simp
  then show ?thesis by auto
qed

lemma list_all_remove_nth: "list_all P xs \<Longrightarrow> list_all P (take k xs @ drop (Suc k) xs)"
  by (auto simp: list_all_iff dest: in_set_takeD in_set_dropD)

lemma DeleteBinding_markers_ok:
  assumes "markers_ok s" and "input_setter s = None"
  shows "markers_ok (DeleteBinding c s)"
proof (cases "0 \<le> c")
  case False
  with assms show ?thesis by (simp add: DeleteBinding_def)
next
  case True
  let ?k = "nat c"
  from assms have p: "paired (rows s) (dots s)"
    and ids: "list_all (\<lambda>d. 0 < fst d \<and> fst d \<le> max_dot_id s) (dots s)"
    and g: "\<not> grabbed s" and mx: "0 \<le> max_dot_id s"
    by (simp_all add: markers_ok_def)
  from p have d: "distinct (map fst (dots s))" by (simp add: paired_def)
  show ?thesis
  proof (cases "?k < length (rows s)")
    case k: True
    then have kd: "?k < length (dots s)" using p by (simp add: paired_length)
    let ?ds = "take ?k (dots s) @ drop (Suc ?k) (dots s)"
    have ci: "c < int (length (rows s))" using True k by linarith
    have dot: "dot_of_row s c = fst (dots s ! ?k)"
      using True ci paired_nth [OF p k] by (simp add: dot_of_row_def at_index_def)
    have r1: "RemoveDot (fst (dots s ! ?k)) (dots s) = ?ds" by (rule RemoveDot_nth [OF d kd])
    have r2: "RemoveDot (fst (dots s ! ?k)) ?ds = ?ds"
      by (rule RemoveDot_absent [OF nth_id_absent [OF d kd]])
    have rows': "rows (DeleteBinding c s) = take ?k (rows s) @ drop (Suc ?k) (rows s)"
      using True k by (simp add: DeleteBinding_def removeRow_def removeRows_def
          OnBindingDeleted_def Let_def)
    have dots': "dots (DeleteBinding c s) = ?ds"
      using True k paired_nth [OF p k] r2
      by (simp add: DeleteBinding_def removeRow_def removeRows_def OnBindingDeleted_def
          Let_def dot r1)
    have rest: "max_dot_id (DeleteBinding c s) = max_dot_id s"
      "input_setter (DeleteBinding c s) = None" "grabbed (DeleteBinding c s) = grabbed s"
      using assms(2) by (simp_all add: DeleteBinding_def)
    show ?thesis
      using paired_remove [OF p, of ?k] list_all_remove_nth [OF ids, of ?k] g mx
      by (simp add: markers_ok_def rows' dots' rest)
  next
    case k: False
    have "0 \<notin> fst ` set (dots s)" using ids by (auto simp: list_all_iff)
    then have "RemoveDot 0 (dots s) = dots s" by (rule RemoveDot_absent)
    moreover have "\<not> c < int (length (rows s))" using True k by linarith
    then have "dot_of_row s c = 0" by (simp add: dot_of_row_def at_index_def)
    ultimately have "DeleteBinding c s = s"
      using True k by (simp add: DeleteBinding_def removeRow_def removeRows_def)
    with assms(1) show ?thesis by simp
  qed
qed

lemma clear_all_rows:
  assumes "paired rs ds" and "k \<le> length rs"
  shows "OnBindingDeleted_loop rs [k ..< length rs] (drop k ds) = []"
  using assms(2)
proof (induction "length rs - k" arbitrary: k)
  case 0
  with paired_length [OF assms(1)] show ?case by simp
next
  case (Suc n)
  then have k: "k < length rs" by simp
  then have kd: "k < length ds" using paired_length [OF assms(1)] by simp
  have u: "[k ..< length rs] = k # [Suc k ..< length rs]" using k by (rule upt_conv_Cons)
  have dr: "drop k ds = ds ! k # drop (Suc k) ds" using kd by (simp add: Cons_nth_drop_Suc)
  have "OnBindingDeleted_loop rs [k ..< length rs] (drop k ds) =
      OnBindingDeleted_loop rs [Suc k ..< length rs] (drop (Suc k) ds)"
    using k paired_nth [OF assms(1) k] by (simp add: u dr)
  also have "\<dots> = []" using Suc by simp
  finally show ?case .
qed

lemma removeRows_all:
  assumes "paired (rows s) (dots s)"
  shows "rows (removeRows 0 (length (rows s)) s) = []"
    and "dots (removeRows 0 (length (rows s)) s) = []"
proof -
  show "rows (removeRows 0 (length (rows s)) s) = []" by simp
  show "dots (removeRows 0 (length (rows s)) s) = []"
  proof (cases "length (rows s)")
    case 0
    with paired_length [OF assms] show ?thesis by (simp add: removeRows_def)
  next
    case (Suc n)
    then have "[0 ..< Suc (length (rows s) - 1)] = [0 ..< length (rows s)]" by simp
    with Suc clear_all_rows [OF assms, of 0] show ?thesis
      by (simp add: removeRows_def OnBindingDeleted_def Let_def del: upt_Suc)
  qed
qed

lemma add_button_row_markers_ok: "markers_ok s \<Longrightarrow> markers_ok (add_button_row s b)"
  by (auto simp: markers_ok_def paired_def add_button_row_def AddDot_def Let_def list_all_iff
      split: option.splits)

lemma add_rows_markers_ok: "markers_ok s \<Longrightarrow> markers_ok (foldl add_button_row s bs)"
  by (induction bs arbitrary: s) (simp_all add: add_button_row_markers_ok)

lemma UpdateUiDisplay_markers_ok:
  assumes "markers_ok s" and "input_setter s = None" and "UpdateUiDisplay s = Some s'"
  shows "markers_ok s'"
proof -
  let ?s0 = "s\<lparr>button_delete_enabled := (1 < length (touch_maps s))\<rparr>"
  let ?s1 = "removeRows 0 (length (rows s)) ?s0"
  from assms(1) have p: "paired (rows ?s0) (dots ?s0)" by (simp add: markers_ok_def)
  have "rows ?s1 = []" "dots ?s1 = []" using removeRows_all [OF p] by simp_all
  with assms(1,2) have "markers_ok ?s1"
    by (simp add: markers_ok_def paired_def)
  then have "markers_ok (foldl add_button_row ?s1 bs)" for bs
    by (rule add_rows_markers_ok)
  then show ?thesis
    using assms(3) by (cases "at_index (touch_maps ?s1) (selected_index ?s1)")
      (auto simp add: UpdateUiDisplay_def Let_def)
qed


lemma paired_update:
  "paired rs ds \<Longrightarrow> btn_dot r = btn_dot (rs ! k) \<Longrightarrow> paired (rs[k := r]) ds"
proof -
  assume p: "paired rs ds" and r: "btn_dot r = btn_dot (rs ! k)"
  have "map btn_dot (rs[k := r]) = map btn_dot rs"
  proof (rule nth_equalityI)
    show "length (map btn_dot (rs[k := r])) = length (map btn_dot rs)" by simp
    fix i
    assume "i < length (map btn_dot (rs[k := r]))"
    then have i: "i < length rs" by simp
    show "map btn_dot (rs[k := r]) ! i = map btn_dot rs ! i"
      using i r by (cases "i = k") simp_all
  qed
  with p show ?thesis by (simp add: paired_def)
qed

lemma GetButtonInput_markers_ok:
  assumes "markers_ok s" and "GetButtonInput r n s = Some s'"
  shows "markers_ok s'"
  using assms
  by (auto simp: GetButtonInput_def markers_ok_def paired_update split: if_splits)

lemma NewBinding_markers_ok:
  assumes "markers_ok s"
  shows "\<exists>s'. NewBinding x y s = Some s' \<and> markers_ok s'"
proof -
  let ?i = "max_dot_id s + 1"
  let ?row = "\<lparr>btn_text = Blank, btn_data = [], btn_dot = Some ?i, xcoord = x, ycoord = y\<rparr>"
  let ?s2 = "s\<lparr>max_dot_id := ?i, dots := dots s @ [(?i, x, y)], rows := rows s @ [?row]\<rparr>"
  have "markers_ok ?s2"
    using assms by (auto simp: markers_ok_def paired_def list_all_iff split: option.splits)
  moreover have n: "NewBinding x y s = GetButtonInput (length (rows s)) True ?s2"
    by (simp add: NewBinding_def AddDot_def Let_def)
  moreover have "\<exists>s'. GetButtonInput (length (rows s)) True ?s2 = Some s'"
    by (simp add: GetButtonInput_def)
  ultimately show ?thesis using GetButtonInput_markers_ok by auto
qed

lemma SetPollingResult_markers_ok:
  assumes "markers_ok s"
  shows "\<exists>s'. SetPollingResult params cancel s = Some s' \<and> markers_ok s'"
proof (cases "input_setter s")
  case None
  with assms show ?thesis by (simp add: SetPollingResult_def markers_ok_def)
next
  case (Some c)
  obtain r n where c: "c = (r, n)" by (cases c)
  from assms Some c have r: "r < length (rows s)" and p: "paired (rows s) (dots s)"
    and ids: "list_all (\<lambda>d. 0 < fst d \<and> fst d \<le> max_dot_id s) (dots s)"
    and mx: "0 \<le> max_dot_id s"
    by (simp_all add: markers_ok_def)
  let ?s1 = "s\<lparr>grabbed := False, timeout_timer := None, poll_timer := None,
      pollers_started := False, calls := calls s @ [(params, cancel)]\<rparr>"
  show ?thesis
  proof (cases "cancel \<and> n")
    case True
    have p1: "paired (rows ?s1) (dots ?s1)" using p by simp
    have "list_all (\<lambda>d. 0 < fst d \<and> fst d \<le> max_dot_id s) (dots (removeRow r ?s1))"
      using ids removeRow_dots_subset [of r ?s1] by (auto simp: list_all_iff)
    with removeRow_keeps_paired [OF p1, of r] mx
    have "markers_ok ((removeRow r ?s1)\<lparr>input_setter := None\<rparr>)"
      by (simp add: markers_ok_def)
    with True Some c show ?thesis
      by (simp add: SetPollingResult_def run_input_setter_def Let_def)
  next
    case False
    with Some c r p ids mx show ?thesis
      by (auto simp: SetPollingResult_def run_input_setter_def Let_def markers_ok_def
          paired_update)
  qed
qed

lemma MoveDot_ids [simp]: "map fst (MoveDot i x y ds) = map fst ds"
  by (induction ds) auto

lemma MoveDot_set: "d \<in> set (MoveDot i x y ds) \<Longrightarrow> fst d \<in> fst ` set ds"
  using MoveDot_ids [of i x y ds] by (metis image_eqI set_map)

lemma paired_MoveDot: "paired rs ds \<Longrightarrow> paired rs (MoveDot i x y ds)"
proof -
  have "map (\<lambda>d. Some (fst d)) zs = map Some (map fst zs)" for zs :: "dot list"
    by simp
  then have "map (\<lambda>d. Some (fst d)) (MoveDot i x y ds) = map (\<lambda>d. Some (fst d)) ds"
    by (simp only: MoveDot_ids)
  then show "paired rs ds \<Longrightarrow> paired rs (MoveDot i x y ds)" by (simp add: paired_def)
qed

lemma list_all_MoveDot:
  "list_all (\<lambda>d. P (fst d)) ds \<Longrightarrow> list_all (\<lambda>d. P (fst d)) (MoveDot i x y ds)"
  by (auto simp: list_all_iff dest!: MoveDot_set)

lemma OnBindingChanged_markers_ok:
  assumes "markers_ok s"
  shows "markers_ok (OnBindingChanged r c s)"
  using assms
  by (auto simp: OnBindingChanged_def Let_def markers_ok_def paired_update paired_MoveDot
      list_all_MoveDot [where P = "\<lambda>i. 0 < i \<and> i \<le> max_dot_id s"]
      split: option.splits)

lemma set_coordinate_text_markers_ok:
  assumes "markers_ok s"
  shows "markers_ok (set_coordinate_text r c v t s)"
proof (cases "length (rows s) \<le> r \<or> (c \<noteq> 1 \<and> c \<noteq> 2) \<or>
    (t \<and> v = (if c = 1 then xcoord (rows s ! r) else ycoord (rows s ! r)))")
  case True
  with assms show ?thesis by (auto simp: set_coordinate_text_def Let_def)
next
  case False
  let ?r1 = "if c = 1 then (rows s ! r)\<lparr>xcoord := v\<rparr> else (rows s ! r)\<lparr>ycoord := v\<rparr>"
  have "markers_ok (s\<lparr>rows := (rows s)[r := ?r1]\<rparr>)"
    using assms by (auto simp: markers_ok_def paired_update split: option.splits)
  then have "markers_ok (OnBindingChanged r c (s\<lparr>rows := (rows s)[r := ?r1]\<rparr>))"
    by (rule OnBindingChanged_markers_ok)
  with False show ?thesis by (auto simp: set_coordinate_text_def Let_def)
qed

lemma SetCoordinates_markers_ok: "markers_ok s \<Longrightarrow> markers_ok (SetCoordinates d x y s)"
  by (simp add: SetCoordinates_def set_coordinate_text_markers_ok split: option.splits)


lemma markers_ok_cong:
  assumes "rows s' = rows s" "dots s' = dots s" "max_dot_id s' = max_dot_id s"
    "grabbed s' = grabbed s" "input_setter s' = input_setter s"
  shows "markers_ok s' = markers_ok s"
  using assms by (simp add: markers_ok_def cong: option.case_cong)

lemma markers_ok_profile_update [simp]:
  "markers_ok (s\<lparr>selected_index := i\<rparr>) = markers_ok s"
  "markers_ok (s\<lparr>touch_maps := m\<rparr>) = markers_ok s"
  by (rule markers_ok_cong; simp)+

lemma SaveCurrentMapping_markers_ok:
  "markers_ok s \<Longrightarrow> SaveCurrentMapping s = Some s' \<Longrightarrow> markers_ok s'"
  using markers_ok_cong [of s' s] by (simp add: SaveCurrentMapping_frame)

lemma RenameMapping_markers_ok:
  "markers_ok s \<Longrightarrow> RenameMapping nm s = Some s' \<Longrightarrow> markers_ok s'"
  by (auto simp: RenameMapping_def split: if_splits option.splits)

lemma markers_ok_idle: "markers_ok s \<Longrightarrow> \<not> grabbed s \<Longrightarrow> input_setter s = None"
  by (cases "input_setter s") (simp_all add: markers_ok_def)

lemma keyPressEvent_markers_ok:
  assumes "markers_ok s"
  shows "\<exists>s'. keyPressEvent key cur s = Some s' \<and> markers_ok s'"
proof (cases "input_setter s = None")
  case True
  with assms DeleteBinding_markers_ok [OF assms True, of cur] show ?thesis
    by (simp add: keyPressEvent_def)
next
  case False
  with SetPollingResult_markers_ok [OF assms] show ?thesis
    by (auto simp: keyPressEvent_def)
qed

lemma poll_slot_markers_ok:
  assumes "markers_ok s"
  shows "\<exists>s'. poll_slot inputs s = Some s' \<and> markers_ok s'"
  using assms SetPollingResult_markers_ok [OF assms]
  by (cases "find (\<lambda>params. Has params ''engine'') inputs") (simp_all add: poll_slot_def)

lemma step_binding_event:
  assumes "markers_ok s" and "binding_event e"
  shows "\<exists>s'. step e s = Some s' \<and> markers_ok s'"
proof (cases e)
  case (DotAdded x y)
  with assms NewBinding_markers_ok [OF assms(1), of x y] show ?thesis by simp
next
  case (DotMoved d x y)
  with assms show ?thesis by (simp add: SetCoordinates_markers_ok)
next
  case (DeleteBindClicked c)
  with assms show ?thesis by (simp add: DeleteBinding_markers_ok markers_ok_idle)
next
  case (CellEdited r c v t)
  with assms show ?thesis by (simp add: set_coordinate_text_markers_ok)
next
  case (KeyPress k c)
  with keyPressEvent_markers_ok [OF assms(1)] show ?thesis by simp
next
  case TimerTimeout
  with SetPollingResult_markers_ok [OF assms(1)] show ?thesis by (simp add: timeout_slot_def)
next
  case (PollTick ps)
  with poll_slot_markers_ok [OF assms(1)] show ?thesis by simp
qed (use assms in simp_all)

lemma step_markers_ok:
  assumes "markers_ok s" and "step e s = Some s'"
  shows "markers_ok s'"
proof (cases "binding_event e")
  case True
  from step_binding_event [OF assms(1) True] assms(2) show ?thesis by auto
next
  case False
  show ?thesis
  proof (cases "grabbed s")
    case True
    with False assms show ?thesis by (cases e) simp_all
  next
    case g: False
    with assms(1) have idle: "input_setter s = None" by (rule markers_ok_idle)
    show ?thesis
    proof (cases e)
      case (DoubleClicked r c)
      with assms g show ?thesis
        by (auto simp: EditBinding_def split: if_splits dest: GetButtonInput_markers_ok)
    next
      case (MappingActivated i)
      with assms g obtain s1 where s1: "SaveCurrentMapping s = Some s1"
        and u: "UpdateUiDisplay (s1\<lparr>selected_index := i\<rparr>) = Some s'"
        by (auto simp: mapping_activated_def split: Option.bind_splits)
      from SaveCurrentMapping_markers_ok [OF assms(1) s1]
      have "markers_ok (s1\<lparr>selected_index := i\<rparr>)" by simp
      moreover have "input_setter (s1\<lparr>selected_index := i\<rparr>) = None"
        using idle SaveCurrentMapping_frame(5) [OF s1] by simp
      ultimately show ?thesis using u by (rule UpdateUiDisplay_markers_ok)
    next
      case (NewClicked nm)
      show ?thesis
      proof (cases "nm = []")
        case True
        with NewClicked assms g show ?thesis by (simp add: NewMapping_def)
      next
        case nm: False
        with NewClicked assms g obtain s1 where
          s1: "(if 0 < selected_index s then SaveCurrentMapping s else Some s) = Some s1"
          and u: "UpdateUiDisplay
            (s1\<lparr>touch_maps := touch_maps s1 @ [\<lparr>name = nm, buttons = []\<rparr>],
                selected_index := int (length (touch_maps s1) + 1) - 1\<rparr>) = Some s'"
          by (auto simp: NewMapping_def split: Option.bind_splits)
        from s1 have m1: "markers_ok s1" and i1: "input_setter s1 = None"
          using assms(1) idle
          by (auto split: if_splits dest: SaveCurrentMapping_markers_ok SaveCurrentMapping_frame(5))
        from m1 have "markers_ok (s1\<lparr>touch_maps := touch_maps s1 @ [\<lparr>name = nm, buttons = []\<rparr>],
                selected_index := int (length (touch_maps s1) + 1) - 1\<rparr>)"
          by simp
        then show ?thesis using _ u by (rule UpdateUiDisplay_markers_ok) (simp add: i1)
      qed
    next
      case (DeleteClicked yes)
      show ?thesis
      proof (cases "yes \<and> button_delete_enabled s")
        case False
        with DeleteClicked assms g show ?thesis
          by (auto simp: DeleteMapping_def split: if_splits)
      next
        case True
        with DeleteClicked assms g have u: "UpdateUiDisplay (erase_profile s) = Some s'"
          by (auto simp: DeleteMapping_def split: if_splits)
        have "markers_ok (erase_profile s)"
          using assms(1) by (simp add: erase_profile_def Let_def)
        then show ?thesis using _ u
          by (rule UpdateUiDisplay_markers_ok) (simp add: erase_profile_def Let_def idle)
      qed
    next
      case (RenameClicked nm)
      with assms g show ?thesis by (auto dest: RenameMapping_markers_ok)
    next
      case Accepted
      with assms g show ?thesis
        by (auto simp: ApplyConfiguration_def dest: SaveCurrentMapping_markers_ok)
    qed (use False in simp_all)
  qed
qed

lemma run_markers_ok: "markers_ok s \<Longrightarrow> run es s = Some s' \<Longrightarrow> markers_ok s'"
  by (induction es arbitrary: s) (auto split: option.splits dest: step_markers_ok)

lemma run_binding_events:
  "markers_ok s \<Longrightarrow> list_all binding_event es \<Longrightarrow> \<exists>s'. run es s = Some s' \<and> markers_ok s'"
proof (induction es arbitrary: s)
  case Nil
  then show ?case by simp
next
  case (Cons e es)
  then obtain s1 where "step e s = Some s1" "markers_ok s1"
    using step_binding_event [of s e] by auto
  with Cons.IH [of s1] Cons.prems show ?case by auto
qed

lemma ConfigureTouchFromButton_markers_ok:
  assumes "ConfigureTouchFromButton maps i = Some s"
  shows "markers_ok s"
  using _ _ assms [unfolded ConfigureTouchFromButton_def]
  by (rule UpdateUiDisplay_markers_ok)
    (simp_all add: markers_ok_def paired_def initial_max_dot_id_def)

text \<open>
  C7. In every state the dialog reaches from its construction through events, any further
  sequence of clicks on the preview (add a binding), marker drags, coordinate edits,
  delete-binding clicks, key presses, timeouts and poll ticks (which resolve or cancel a
  capture) runs through, and afterwards there are as many markers as rows: the rows carry,
  in order, the ids of the markers.
\<close>

theorem C7_markers_match_rows:
  assumes "ConfigureTouchFromButton maps i = Some s0" and "run pre s0 = Some s"
    and "list_all binding_event es"
  shows "\<exists>s'. run es s = Some s' \<and> length (dots s') = length (rows s') \<and>
           map btn_dot (rows s') = map (\<lambda>d. Some (fst d)) (dots s')"
proof -
  have "markers_ok s"
    using assms(1,2) by (blast intro: run_markers_ok ConfigureTouchFromButton_markers_ok)
  from run_binding_events [OF this assms(3)] obtain s' where
    "run es s = Some s'" "markers_ok s'" by blast
  then show ?thesis using paired_length [of "rows s'" "dots s'"]
    by (auto simp: markers_ok_def paired_def)
qed

theorem C7_markers_match_rows_witness:
  "\<exists>s'. run [DotAdded 5 5, TimerTimeout, DotAdded 7 8, KeyPress 65 (- 1), DeleteBindClicked 0,
            DotAdded 1 2, KeyPress Key_Escape 1] edited_dialog = Some s' \<and>
     length (dots s') = length (rows s') \<and>
     map btn_dot (rows s') = map (\<lambda>d. Some (fst d)) (dots s')"
proof -
  have a: "ConfigureTouchFromButton [\<lparr>name = ''Default'', buttons = []\<rparr>] 0 = Some one_profile_dialog"
    by code_simp
  have b: "run [DotAdded 10 10, KeyPress 66 (- 1)] one_profile_dialog = Some edited_dialog"
    by code_simp
  have c: "list_all binding_event [DotAdded 5 5, TimerTimeout, DotAdded 7 8, KeyPress 65 (- 1),
      DeleteBindClicked 0, DotAdded 1 2, KeyPress Key_Escape 1]"
    by simp
  show ?thesis by (rule C7_markers_match_rows [OF a b c])
qed

subsection \<open>Rounding to single precision\<close>


lemma rne_bounds: "\<lfloor>m\<rfloor> \<le> rne m \<and> rne m \<le> \<lceil>m\<rceil>"
proof (cases "m = of_int \<lfloor>m\<rfloor>")
  case True
  then show ?thesis by (simp add: rne_def Let_def)
next
  case False
  then have "\<lceil>m\<rceil> = \<lfloor>m\<rfloor> + 1" by (simp add: ceiling_altdef)
  then show ?thesis by (simp add: rne_def Let_def)
qed

lemma fexp_lower:
  assumes "0 < v"
  shows "2 powi (fexp v) \<le> v"
proof (cases "1 \<le> v")
  case True
  then have n: "0 < \<lfloor>v\<rfloor>" by linarith
  from bitlen_bounds [OF n] have "2 ^ nat (bitlen \<lfloor>v\<rfloor> - 1) \<le> \<lfloor>v\<rfloor>" by simp
  then have "(of_int (2 ^ nat (bitlen \<lfloor>v\<rfloor> - 1)) :: rat) \<le> of_int \<lfloor>v\<rfloor>"
    by (simp only: of_int_le_iff)
  then have "(2::rat) ^ nat (bitlen \<lfloor>v\<rfloor> - 1) \<le> v" by (simp add: le_floor_iff)
  moreover have "\<not> bitlen \<lfloor>v\<rfloor> \<le> 0" using n bitlen_eq_zero_iff [of "\<lfloor>v\<rfloor>"] bitlen_nonneg [of "\<lfloor>v\<rfloor>"] by linarith
  then have "0 \<le> bitlen \<lfloor>v\<rfloor> - 1" by simp
  ultimately show ?thesis using True by (simp add: fexp_def power_int_def)
next
  case False
  with assms have "1 < 1 / v" by simp
  then have c: "0 < \<lceil>1 / v\<rceil> - 1" by linarith
  let ?L = "bitlen (\<lceil>1 / v\<rceil> - 1)"
  from bitlen_bounds [OF c] have "\<lceil>1 / v\<rceil> - 1 < 2 ^ nat ?L" by simp
  then have "\<lceil>1 / v\<rceil> \<le> 2 ^ nat ?L" by simp
  then have "1 / v \<le> of_int (2 ^ nat ?L)" by (simp only: ceiling_le_iff)
  then have "1 / v \<le> 2 ^ nat ?L" by simp
  then have "1 \<le> 2 ^ nat ?L * v" using assms by (simp add: field_simps)
  then have "1 / 2 ^ nat ?L \<le> v" by (simp add: field_simps)
  moreover have "0 \<le> ?L" by (rule bitlen_nonneg)
  then have "(2::rat) powi (- ?L) = 1 / 2 ^ nat ?L"
    by (simp add: power_int_minus power_int_def field_simps)
  ultimately show ?thesis using False by (simp add: fexp_def)
qed

lemma fl_nonneg_eq:
  "0 \<le> v \<Longrightarrow> fl v = of_int (rne (v / 2 powi (max (fexp v) (- 126) - 23))) *
     2 powi (max (fexp v) (- 126) - 23)"
  by (simp add: fl_def ulp_def)

lemma fl_zero [simp]: "fl 0 = 0"
  by (simp add: fl_def rne_def)

lemma grid_shift:
  assumes "z \<le> j"
  shows "(of_int k :: rat) * 2 powi j = of_int (k * 2 ^ nat (j - z)) * 2 powi z"
proof -
  have "(2::rat) powi j = 2 powi ((j - z) + z)" by simp
  also have "\<dots> = 2 powi (j - z) * 2 powi z" by (rule power_int_add) simp
  also have "(2::rat) powi (j - z) = 2 ^ nat (j - z)" using assms by (simp add: power_int_def)
  finally show ?thesis by simp
qed

lemma grid_small:
  assumes "k < 2 ^ 24" and "j < e - 23"
  shows "(of_int k :: rat) * 2 powi j < 2 powi e"
proof -
  have "(of_int k :: rat) < of_int (2 ^ 24)" using assms(1) by (simp only: of_int_less_iff)
  then have "(of_int k :: rat) < 2 powi 24" by simp
  then have "(of_int k :: rat) * 2 powi j < 2 powi 24 * 2 powi j" by simp
  also have "\<dots> = 2 powi (24 + j)" by (rule power_int_add [symmetric]) simp
  also have "\<dots> \<le> 2 powi e" using assms(2) by (intro power_int_increasing) simp_all
  finally show ?thesis .
qed

lemma fl_lower:
  assumes "0 \<le> k" and "k < 2 ^ 24" and "- 149 \<le> j" and "of_int k * 2 powi j \<le> v"
  shows "of_int k * 2 powi j \<le> fl v"
proof (cases "v = 0")
  case True
  with assms(4) show ?thesis by simp
next
  case False
  have a0: "(0::rat) \<le> of_int k * 2 powi j" using assms(1) by simp
  with assms(4) False have v: "0 < v" by simp
  define E where "E = max (fexp v) (- 126)"
  define q :: rat where "q = 2 powi (E - 23)"
  have q: "0 < q" by (simp add: q_def)
  have f: "fl v = of_int (rne (v / q)) * q"
    using v by (simp add: fl_nonneg_eq E_def q_def)
  have fl_ge: "of_int \<lfloor>v / q\<rfloor> * q \<le> fl v"
    using rne_bounds [of "v / q"] q by (simp add: f)
  show ?thesis
  proof (cases "E - 23 \<le> j")
    case True
    define K where "K = k * 2 ^ nat (j - (E - 23))"
    have a: "of_int k * 2 powi j = of_int K * q"
      unfolding K_def q_def by (rule grid_shift [OF True])
    with assms(4) q have "of_int K \<le> v / q" by (simp add: field_simps)
    then have "K \<le> \<lfloor>v / q\<rfloor>" by (simp add: le_floor_iff)
    then have "(of_int K :: rat) \<le> of_int \<lfloor>v / q\<rfloor>" by (simp only: of_int_le_iff)
    then have "of_int K * q \<le> of_int \<lfloor>v / q\<rfloor> * q" using q by simp
    with fl_ge a show ?thesis by simp
  next
    case False
    with assms(3) have e: "E = fexp v" by (simp add: E_def max_def split: if_splits)
    from False have "of_int k * 2 powi j < (2::rat) powi E"
      by (intro grid_small [OF assms(2)]) simp
    moreover have "(2::rat) powi E \<le> of_int \<lfloor>v / q\<rfloor> * q"
    proof -
      have "(2::rat) powi E = 2 powi (23 + (E - 23))" by simp
      also have "\<dots> = 2 powi 23 * q" unfolding q_def by (rule power_int_add) simp
      finally have p: "(2::rat) powi E = 2 ^ 23 * q" by simp
      from fexp_lower [OF v] have "(2::rat) powi E \<le> v" by (simp add: e)
      with p have "2 ^ 23 * q \<le> v" by simp
      with q have "of_int (2 ^ 23) \<le> v / q" by (simp add: field_simps)
      then have "2 ^ 23 \<le> \<lfloor>v / q\<rfloor>" by (simp only: le_floor_iff)
      then have "(of_int (2 ^ 23) :: rat) \<le> of_int \<lfloor>v / q\<rfloor>" by (simp only: of_int_le_iff)
      then have "2 ^ 23 * q \<le> of_int \<lfloor>v / q\<rfloor> * q" using q by simp
      with p show ?thesis by simp
    qed
    ultimately show ?thesis using fl_ge by simp
  qed
qed

lemma fl_upper:
  assumes "0 \<le> v" and "k < 2 ^ 24" and "- 149 \<le> j" and "v \<le> of_int k * 2 powi j"
  shows "fl v \<le> of_int k * 2 powi j"
proof (cases "v = 0")
  case True
  with assms(4) show ?thesis by simp
next
  case False
  with assms(1) have v: "0 < v" by simp
  define E where "E = max (fexp v) (- 126)"
  define q :: rat where "q = 2 powi (E - 23)"
  have q: "0 < q" by (simp add: q_def)
  have f: "fl v = of_int (rne (v / q)) * q"
    using v by (simp add: fl_nonneg_eq E_def q_def)
  have fl_le: "fl v \<le> of_int \<lceil>v / q\<rceil> * q"
    using rne_bounds [of "v / q"] q by (simp add: f)
  show ?thesis
  proof (cases "E - 23 \<le> j")
    case True
    define K where "K = k * 2 ^ nat (j - (E - 23))"
    have a: "of_int k * 2 powi j = of_int K * q"
      unfolding K_def q_def by (rule grid_shift [OF True])
    with assms(4) q have "v / q \<le> of_int K" by (simp add: field_simps)
    then have "\<lceil>v / q\<rceil> \<le> K" by (simp add: ceiling_le_iff)
    then have "(of_int \<lceil>v / q\<rceil> :: rat) \<le> of_int K" by (simp only: of_int_le_iff)
    then have "of_int \<lceil>v / q\<rceil> * q \<le> of_int K * q" using q by simp
    with fl_le a show ?thesis by simp
  next
    case False
    with assms(3) have e: "E = fexp v" by (simp add: E_def max_def split: if_splits)
    from False have "of_int k * 2 powi j < (2::rat) powi E"
      by (intro grid_small [OF assms(2)]) simp
    also have "\<dots> \<le> v" using fexp_lower [OF v] by (simp add: e)
    finally show ?thesis using assms(4) by simp
  qed
qed

lemma fl_exact:
  assumes "0 \<le> k" and "k < 2 ^ 24" and "- 149 \<le> j"
  shows "fl (of_int k * 2 powi j) = of_int k * 2 powi j"
proof (rule antisym)
  show "fl (of_int k * 2 powi j) \<le> of_int k * 2 powi j"
    using assms by (intro fl_upper) simp_all
  show "of_int k * 2 powi j \<le> fl (of_int k * 2 powi j)"
    using assms by (intro fl_lower) simp_all
qed

lemma fl_int: "0 \<le> n \<Longrightarrow> n < 2 ^ 24 \<Longrightarrow> fl (of_int n) = of_int n"
  using fl_exact [of n 0] by simp

subsection \<open>From a device point to its pixel and back\<close>








lemma float_of_int_exact: "0 \<le> n \<Longrightarrow> n < 2 ^ 24 \<Longrightarrow> float_of_int n = of_int n"
  by (simp add: float_of_int_def fl_int)
















subsection \<open>Coordinates stay inside the device range\<close>


lemma digit_val_nth: "n < 10 \<Longrightarrow> digit_val (digit_chars ! n) = Some n"
proof -
  assume "n < 10"
  then have "n = 0 \<or> n = 1 \<or> n = 2 \<or> n = 3 \<or> n = 4 \<or> n = 5 \<or> n = 6 \<or> n = 7 \<or> n = 8 \<or> n = 9"
    by presburger
  then show ?thesis by (elim disjE) (simp_all add: digit_chars_def)
qed

lemma read_nat_snoc:
  "read_nat acc (xs @ [c]) =
     (case read_nat acc xs of None \<Rightarrow> None
      | Some m \<Rightarrow> (case digit_val c of None \<Rightarrow> None | Some d \<Rightarrow> Some (10 * m + d)))"
  by (induction xs arbitrary: acc) (simp_all split: option.splits del: digit_val.simps)

lemma read_nat_show_nat: "read_nat 0 (show_nat n) = Some n"
proof (induction n rule: show_nat.induct)
  case (1 n)
  show ?case
  proof (cases "n < 10")
    case True
    then show ?thesis
      using digit_val_nth [of n] by (subst show_nat.simps) (simp del: digit_val.simps)
  next
    case False
    have "n mod 10 < 10" by simp
    then have d: "digit_val (digit_chars ! (n mod 10)) = Some (n mod 10)" by (rule digit_val_nth)
    from False "1.IH" have "read_nat 0 (show_nat (n div 10)) = Some (n div 10)" by simp
    with False d show ?thesis
      by (subst show_nat.simps) (simp add: read_nat_snoc del: digit_val.simps)
  qed
qed

lemma show_nat_not_Nil: "show_nat n \<noteq> []"
  by (subst show_nat.simps) simp

lemma read_int_show_int: "read_int (show_int i) = Some i"
proof (cases "i < 0")
  case True
  then show ?thesis
    by (simp add: show_int_def show_nat_not_Nil read_nat_show_nat)
next
  case False
  obtain c cs where cs: "show_nat (nat i) = c # cs"
    using show_nat_not_Nil [of "nat i"] by (cases "show_nat (nat i)") auto
  have "CHR ''-'' \<notin> set digit_chars" by (simp add: digit_chars_def)
  with show_nat_digits [of "nat i"] cs have "c \<noteq> CHR ''-''" by auto
  with False cs read_nat_show_nat [of "nat i"] show ?thesis
    by (simp add: show_int_def del: read_nat.simps)
qed

lemma map_of_Set_param: "map_of (Set_param p k v) = (map_of p)(k \<mapsto> v)"
  by (induction p) (auto simp: fun_eq_iff)

lemma Get_int_Set_int_same: "Get_int (Set_int p k i) k d = i"
  by (simp add: Get_int_def Set_int_def map_of_Set_param read_int_show_int)

lemma Get_int_Set_int_other: "k' \<noteq> k \<Longrightarrow> Get_int (Set_int p k i) k' d = Get_int p k' d"
  by (simp add: Get_int_def Set_int_def map_of_Set_param)

lemma saved_button_coords:
  assumes "saved_button r = Some b"
  shows "Get_int (Parse b) ''x'' 0 = xcoord r \<and> Get_int (Parse b) ''y'' 0 = ycoord r"
proof -
  let ?q = "Set_int (Set_int (Parse (btn_data r)) ''x'' (xcoord r)) ''y'' (ycoord r)"
  from assms have b: "b = Serialize ?q"
    by (auto simp: saved_button_def Let_def split: if_splits)
  have "clean ?q"
    by (intro Set_int_clean Parse_clean) (simp_all add: clean_text_def)
  then have "Parse b = ?q" using b by (simp add: Parse_Serialize)
  then show ?thesis by (simp add: Get_int_Set_int_same Get_int_Set_int_other)
qed

lemma saved_button_in_range:
  "saved_button r = Some b \<Longrightarrow> row_in_range r \<Longrightarrow> button_in_range b"
  using saved_button_coords [of r b] by (simp add: row_in_range_def button_in_range_def)

lemma MapToDeviceCoords_in_range:
  assumes "MapToDeviceCoords g screen_x screen_y = Some (x, y)"
  shows "device_point x y"
proof -
  let ?tx = "device_coord kScreenBottomWidth (margin_left g) (content_width g) screen_x"
  let ?ty = "device_coord kScreenBottomHeight (margin_top g) (content_height g) screen_y"
  have W: "float_of_int kScreenBottomWidth = 320"
    using float_of_int_exact [of 320] by (simp add: kScreenBottomWidth_def)
  have H: "float_of_int kScreenBottomHeight = 240"
    using float_of_int_exact [of 240] by (simp add: kScreenBottomHeight_def)
  from assms have t: "1 / 2 \<le> ?tx" "?tx < 320" "1 / 2 \<le> ?ty" "?ty < 240"
    and xy: "x = int_of_float ?tx" "y = int_of_float ?ty"
    by (auto simp: MapToDeviceCoords_def Let_def W H split: if_splits)
  from t have "0 \<le> \<lfloor>?tx\<rfloor>" "\<lfloor>?tx\<rfloor> < 320" "0 \<le> \<lfloor>?ty\<rfloor>" "\<lfloor>?ty\<rfloor> < 240"
    by linarith+
  with t show ?thesis
    by (simp add: device_point_def xy int_of_float_def kScreenBottomWidth_def
        kScreenBottomHeight_def)
qed


lemma list_all_update: "list_all P xs \<Longrightarrow> P y \<Longrightarrow> list_all P (xs[k := y])"
  using set_update_subset_insert [of xs k y] by (auto simp: list_all_iff)

lemma list_all_nth: "list_all P xs \<Longrightarrow> k < length xs \<Longrightarrow> P (xs ! k)"
  by (simp add: list_all_iff)

lemma row_in_range_text [simp]:
  "row_in_range (r\<lparr>btn_text := t\<rparr>) = row_in_range r"
  "row_in_range (r\<lparr>btn_data := d\<rparr>) = row_in_range r"
  by (simp_all add: row_in_range_def)

lemma removeRows_rows_subset: "set (rows (removeRows r n s)) \<subseteq> set (rows s)"
  by (auto simp: removeRows_def OnBindingDeleted_def Let_def dest: in_set_takeD in_set_dropD)

lemma removeRow_in_range:
  "list_all row_in_range (rows s) \<Longrightarrow> list_all row_in_range (rows (removeRow k s))"
  using removeRows_rows_subset [of k 1 s] by (auto simp: list_all_iff removeRow_def)

lemma add_button_row_in_range:
  "list_all row_in_range (rows s) \<Longrightarrow> button_in_range b \<Longrightarrow>
   list_all row_in_range (rows (add_button_row s b))"
  by (simp add: add_button_row_def AddDot_def Let_def row_in_range_def button_in_range_def)

lemma add_rows_in_range:
  "list_all row_in_range (rows s) \<Longrightarrow> list_all button_in_range bs \<Longrightarrow>
   list_all row_in_range (rows (foldl add_button_row s bs))"
  by (induction bs arbitrary: s) (simp_all add: add_button_row_in_range)

lemma UpdateUiDisplay_coords_ok:
  assumes "store_in_range (touch_maps s)" and "UpdateUiDisplay s = Some s'"
  shows "coords_ok s'"
proof -
  let ?s1 = "removeRows 0 (length (rows s)) (s\<lparr>button_delete_enabled := (1 < length (touch_maps s))\<rparr>)"
  have r: "rows ?s1 = []" using removeRows_all_rows [of "s\<lparr>button_delete_enabled := (1 < length (touch_maps s))\<rparr>"] by simp
  show ?thesis
  proof (cases "at_index (touch_maps ?s1) (selected_index ?s1)")
    case None
    with assms(2) show ?thesis by (simp add: UpdateUiDisplay_def Let_def)
  next
    case (Some m)
    then have "m \<in> set (touch_maps s)" by (auto simp: at_index_def split: if_splits)
    with assms(1) have "list_all button_in_range (buttons m)"
      by (simp add: store_in_range_def list_all_iff)
    then have "list_all row_in_range (rows (foldl add_button_row ?s1 (buttons m)))"
      using r by (intro add_rows_in_range) simp_all
    moreover from Some assms(2) have s': "s' = foldl add_button_row ?s1 (buttons m)"
      by (simp add: UpdateUiDisplay_def Let_def)
    ultimately show ?thesis using assms(1) by (simp add: coords_ok_def s')
  qed
qed

lemma saved_buttons_in_range:
  "list_all row_in_range rs \<Longrightarrow> list_all button_in_range (List.map_filter saved_button rs)"
  by (auto simp: list_all_iff List.map_filter_def intro: saved_button_in_range)

lemma SaveCurrentMapping_coords_ok:
  assumes "coords_ok s" and "SaveCurrentMapping s = Some s'"
  shows "coords_ok s'"
proof -
  from assms(2) obtain m where
    s': "s' = s\<lparr>touch_maps := (touch_maps s)
        [nat (selected_index s) := m\<lparr>buttons := List.map_filter saved_button (rows s)\<rparr>]\<rparr>"
    by (auto simp: SaveCurrentMapping_def split: option.splits)
  from assms(1) have "list_all button_in_range (List.map_filter saved_button (rows s))"
    by (simp add: coords_ok_def saved_buttons_in_range)
  with assms(1) show ?thesis
    unfolding s' coords_ok_def store_in_range_def by (simp add: list_all_update)
qed

lemma store_in_range_erase:
  "store_in_range maps \<Longrightarrow> store_in_range (take k maps @ drop (Suc k) maps)"
  by (auto simp: store_in_range_def list_all_iff dest: in_set_takeD in_set_dropD)

lemma RenameMapping_coords_ok:
  assumes "coords_ok s" and "RenameMapping nm s = Some s'"
  shows "coords_ok s'"
proof (cases "nm = []")
  case True
  with assms show ?thesis by (simp add: RenameMapping_def)
next
  case False
  with assms(2) obtain m where m: "at_index (touch_maps s) (selected_index s) = Some m"
    and s': "s' = s\<lparr>touch_maps := (touch_maps s)[nat (selected_index s) := m\<lparr>name := nm\<rparr>]\<rparr>"
    by (auto simp: RenameMapping_def split: option.splits)
  from m have "m \<in> set (touch_maps s)" by (auto simp: at_index_def split: if_splits)
  with assms(1) have "list_all button_in_range (buttons (m\<lparr>name := nm\<rparr>))"
    by (simp add: coords_ok_def store_in_range_def list_all_iff)
  with assms(1) show ?thesis
    unfolding s' coords_ok_def store_in_range_def by (simp add: list_all_update)
qed

lemma clamp_device:
  "0 \<le> clamp v 0 (kScreenBottomWidth - 1) \<and> clamp v 0 (kScreenBottomWidth - 1) < kScreenBottomWidth \<and>
   0 \<le> clamp v 0 (kScreenBottomHeight - 1) \<and> clamp v 0 (kScreenBottomHeight - 1) < kScreenBottomHeight"
  by (simp add: clamp_def kScreenBottomWidth_def kScreenBottomHeight_def)

lemma set_coordinate_text_rows:
  assumes "row < length (rows s)" and "list_all row_in_range (rows s)"
  shows "rows (set_coordinate_text row 1 v c s) =
           (rows s)[row := (rows s ! row)\<lparr>xcoord := clamp v 0 (kScreenBottomWidth - 1)\<rparr>]"
    and "rows (set_coordinate_text row 2 v c s) =
           (rows s)[row := (rows s ! row)\<lparr>ycoord := clamp v 0 (kScreenBottomHeight - 1)\<rparr>]"
proof -
  from assms have r: "row_in_range (rows s ! row)" by (rule list_all_nth [rotated])
  then have x: "clamp (xcoord (rows s ! row)) 0 (kScreenBottomWidth - 1) = xcoord (rows s ! row)"
    and y: "clamp (ycoord (rows s ! row)) 0 (kScreenBottomHeight - 1) = ycoord (rows s ! row)"
    by (simp_all add: row_in_range_def device_point_def clamp_def)
  show "rows (set_coordinate_text row 1 v c s) =
           (rows s)[row := (rows s ! row)\<lparr>xcoord := clamp v 0 (kScreenBottomWidth - 1)\<rparr>]"
    using assms(1) x
    by (auto simp: set_coordinate_text_def OnBindingChanged_def Let_def split: option.splits)
  show "rows (set_coordinate_text row 2 v c s) =
           (rows s)[row := (rows s ! row)\<lparr>ycoord := clamp v 0 (kScreenBottomHeight - 1)\<rparr>]"
    using assms(1) y
    by (auto simp: set_coordinate_text_def OnBindingChanged_def Let_def split: option.splits)
qed


lemma set_coordinate_text_in_range:
  assumes "list_all row_in_range (rows s)"
  shows "list_all row_in_range (rows (set_coordinate_text row column v c s))"
proof (cases "row < length (rows s) \<and> (column = 1 \<or> column = 2)")
  case False
  with assms show ?thesis by (auto simp: set_coordinate_text_def)
next
  case True
  then have row: "row < length (rows s)" by simp
  from assms row have r: "row_in_range (rows s ! row)" by (rule list_all_nth)
  from True show ?thesis
  proof (elim conjE disjE)
    assume "column = 1"
    moreover have "row_in_range ((rows s ! row)\<lparr>xcoord := clamp v 0 (kScreenBottomWidth - 1)\<rparr>)"
      using r clamp_device [of v] by (simp add: row_in_range_def device_point_def)
    ultimately show ?thesis
      using assms set_coordinate_text_rows(1) [OF row assms, of v c] by (simp add: list_all_update)
  next
    assume "column = 2"
    moreover have "row_in_range ((rows s ! row)\<lparr>ycoord := clamp v 0 (kScreenBottomHeight - 1)\<rparr>)"
      using r clamp_device [of v] by (simp add: row_in_range_def device_point_def)
    ultimately show ?thesis
      using assms set_coordinate_text_rows(2) [OF row assms, of v c] by (simp add: list_all_update)
  qed
qed

lemma set_coordinate_text_coords_ok:
  "coords_ok s \<Longrightarrow> coords_ok (set_coordinate_text row column v c s)"
  by (simp add: coords_ok_def set_coordinate_text_in_range)

lemma SetCoordinates_coords_ok: "coords_ok s \<Longrightarrow> coords_ok (SetCoordinates d x y s)"
  by (simp add: SetCoordinates_def set_coordinate_text_coords_ok split: option.splits)

lemma GetButtonInput_coords_ok:
  assumes "coords_ok s" and "GetButtonInput r n s = Some s'"
  shows "coords_ok s'"
proof -
  from assms(2) have r: "r < length (rows s)"
    and s': "s' = s\<lparr>rows := (rows s)[r := (rows s ! r)\<lparr>btn_text := PressKey\<rparr>],
      input_setter := Some (r, n), pollers_started := True, grabbed := True,
      timeout_timer := Some 5000, poll_timer := Some 200\<rparr>"
    by (auto simp: GetButtonInput_def split: if_splits)
  from assms(1) r have "row_in_range (rows s ! r)" by (simp add: coords_ok_def list_all_nth)
  with assms(1) show ?thesis by (simp add: s' coords_ok_def list_all_update)
qed

lemma NewBinding_coords_ok:
  assumes "coords_ok s" and "device_point x y" and "NewBinding x y s = Some s'"
  shows "coords_ok s'"
proof -
  let ?row = "\<lparr>btn_text = Blank, btn_data = [], btn_dot = Some (max_dot_id s + 1),
      xcoord = x, ycoord = y\<rparr>"
  let ?s2 = "s\<lparr>max_dot_id := max_dot_id s + 1, dots := dots s @ [(max_dot_id s + 1, x, y)],
      rows := rows s @ [?row]\<rparr>"
  have "coords_ok ?s2" using assms(1,2) by (simp add: coords_ok_def row_in_range_def)
  moreover have "GetButtonInput (length (rows s)) True ?s2 = Some s'"
    using assms(3) by (simp add: NewBinding_def AddDot_def Let_def)
  ultimately show ?thesis by (rule GetButtonInput_coords_ok)
qed

lemma SetPollingResult_coords_ok:
  assumes "coords_ok s" and "SetPollingResult params cancel s = Some s'"
  shows "coords_ok s'"
proof -
  from assms(1) have rs: "list_all row_in_range (rows s)" and st: "store_in_range (touch_maps s)"
    by (simp_all add: coords_ok_def)
  have t: "touch_maps s' = touch_maps s" using assms(2) by (rule SetPollingResult_profiles(1))
  let ?s1 = "s\<lparr>grabbed := False, timeout_timer := None, poll_timer := None,
      pollers_started := False, calls := calls s @ [(params, cancel)]\<rparr>"
  have "list_all row_in_range (rows s')"
  proof (cases "input_setter s")
    case None
    with assms(2) rs show ?thesis by (auto simp: SetPollingResult_def)
  next
    case (Some c)
    with assms(2) obtain s2 where s2: "run_input_setter c params cancel ?s1 = Some s2"
      and s': "s' = s2\<lparr>input_setter := None\<rparr>"
      by (auto simp: SetPollingResult_def split: Option.bind_splits)
    have "list_all row_in_range (rows s2)"
    proof (cases "cancel \<and> snd c")
      case True
      have "list_all row_in_range (rows ?s1)" using rs by simp
      then have "list_all row_in_range (rows (removeRow (fst c) ?s1))" by (rule removeRow_in_range)
      with True s2 show ?thesis by (auto simp: run_input_setter_def Let_def)
    next
      case False
      with s2 have r: "fst c < length (rows s)"
        by (auto simp: run_input_setter_def Let_def split: if_splits)
      with rs have "row_in_range (rows s ! fst c)" by (rule list_all_nth)
      with False s2 rs show ?thesis
        by (auto simp: run_input_setter_def Let_def list_all_update split: if_splits)
    qed
    then show ?thesis by (simp add: s')
  qed
  with st t show ?thesis by (simp add: coords_ok_def)
qed

lemma DeleteBinding_coords_ok: "coords_ok s \<Longrightarrow> coords_ok (DeleteBinding c s)"
proof -
  assume a: "coords_ok s"
  then have "list_all row_in_range (rows (s\<lparr>dots := RemoveDot (dot_of_row s c) (dots s)\<rparr>))"
    by (simp add: coords_ok_def)
  then have "list_all row_in_range
      (rows (removeRow (nat c) (s\<lparr>dots := RemoveDot (dot_of_row s c) (dots s)\<rparr>)))"
    by (rule removeRow_in_range)
  with a show ?thesis by (simp add: coords_ok_def DeleteBinding_def removeRow_def)
qed

lemma step_coords_ok:
  assumes "coords_ok s" and "preview_event e" and "step e s = Some s'"
  shows "coords_ok s'"
proof (cases e)
  case (DotAdded x y)
  with assms show ?thesis by (auto split: if_splits dest: NewBinding_coords_ok)
next
  case (DotMoved d x y)
  with assms show ?thesis by (auto split: if_splits simp: SetCoordinates_coords_ok)
next
  case (DoubleClicked r c)
  with assms show ?thesis
    by (auto simp: EditBinding_def split: if_splits dest: GetButtonInput_coords_ok)
next
  case (DeleteBindClicked c)
  with assms show ?thesis by (auto split: if_splits simp: DeleteBinding_coords_ok)
next
  case (CellEdited r c v t)
  with assms show ?thesis by (auto split: if_splits simp: set_coordinate_text_coords_ok)
next
  case (KeyPress k c)
  with assms show ?thesis
    by (auto simp: keyPressEvent_def DeleteBinding_coords_ok split: if_splits
        dest: SetPollingResult_coords_ok)
next
  case TimerTimeout
  with assms show ?thesis by (auto simp: timeout_slot_def dest: SetPollingResult_coords_ok)
next
  case (PollTick ps)
  with assms show ?thesis
    by (auto simp: poll_slot_def split: option.splits dest: SetPollingResult_coords_ok)
next
  case (MappingActivated i)
  show ?thesis
  proof (cases "grabbed s")
    case True
    with MappingActivated assms show ?thesis by simp
  next
    case False
    with MappingActivated assms obtain s1 where s1: "SaveCurrentMapping s = Some s1"
      and u: "UpdateUiDisplay (s1\<lparr>selected_index := i\<rparr>) = Some s'"
      by (auto simp: mapping_activated_def split: Option.bind_splits)
    from SaveCurrentMapping_coords_ok [OF assms(1) s1]
    have "store_in_range (touch_maps (s1\<lparr>selected_index := i\<rparr>))" by (simp add: coords_ok_def)
    then show ?thesis using u by (rule UpdateUiDisplay_coords_ok)
  qed
next
  case (NewClicked nm)
  show ?thesis
  proof (cases "grabbed s \<or> nm = []")
    case True
    with NewClicked assms show ?thesis by (auto simp: NewMapping_def split: if_splits)
  next
    case False
    with NewClicked assms obtain s1 where
      s1: "(if 0 < selected_index s then SaveCurrentMapping s else Some s) = Some s1"
      and u: "UpdateUiDisplay
        (s1\<lparr>touch_maps := touch_maps s1 @ [\<lparr>name = nm, buttons = []\<rparr>],
            selected_index := int (length (touch_maps s1) + 1) - 1\<rparr>) = Some s'"
      by (auto simp: NewMapping_def split: Option.bind_splits)
    from s1 assms(1) have "coords_ok s1"
      by (auto split: if_splits dest: SaveCurrentMapping_coords_ok)
    then have "store_in_range (touch_maps
        (s1\<lparr>touch_maps := touch_maps s1 @ [\<lparr>name = nm, buttons = []\<rparr>],
            selected_index := int (length (touch_maps s1) + 1) - 1\<rparr>))"
      by (simp add: coords_ok_def store_in_range_def)
    then show ?thesis using u by (rule UpdateUiDisplay_coords_ok)
  qed
next
  case (DeleteClicked yes)
  show ?thesis
  proof (cases "grabbed s \<or> \<not> button_delete_enabled s \<or> \<not> yes")
    case True
    with DeleteClicked assms show ?thesis by (auto simp: DeleteMapping_def split: if_splits)
  next
    case False
    with DeleteClicked assms have u: "UpdateUiDisplay (erase_profile s) = Some s'"
      by (auto simp: DeleteMapping_def split: if_splits)
    have "store_in_range (touch_maps (erase_profile s))"
      using assms(1) by (simp add: erase_profile_def Let_def coords_ok_def store_in_range_erase)
    then show ?thesis using u by (rule UpdateUiDisplay_coords_ok)
  qed
next
  case (RenameClicked nm)
  with assms show ?thesis by (auto split: if_splits dest: RenameMapping_coords_ok)
next
  case Accepted
  with assms show ?thesis
    by (auto simp: ApplyConfiguration_def split: if_splits dest: SaveCurrentMapping_coords_ok)
qed

lemma run_coords_ok:
  "coords_ok s \<Longrightarrow> list_all preview_event es \<Longrightarrow> run es s = Some s' \<Longrightarrow> coords_ok s'"
proof (induction es arbitrary: s)
  case Nil
  then show ?case by simp
next
  case (Cons e es)
  from Cons.prems(3) obtain s1 where s1: "step e s = Some s1" and r: "run es s1 = Some s'"
    by (auto split: option.splits)
  from Cons.prems(1,2) s1 have "coords_ok s1" by (auto intro: step_coords_ok)
  with Cons.IH [of s1] Cons.prems(2) r show ?case by simp
qed

lemma ConfigureTouchFromButton_coords_ok:
  "store_in_range maps \<Longrightarrow> ConfigureTouchFromButton maps i = Some s \<Longrightarrow> coords_ok s"
  unfolding ConfigureTouchFromButton_def by (rule UpdateUiDisplay_coords_ok) simp_all

subsection \<open>Coordinate cells\<close>


text \<open>
  The preview emits \<^verbatim>\<open>DotAdded\<close> only from \<open>mousePressEvent\<close>, with a point inside the device
  range.
\<close>

lemma mousePressEvent_preview_event:
  "mousePressEvent g left screen_x screen_y = Some e \<Longrightarrow> preview_event e"
  by (auto simp: mousePressEvent_def split: if_splits dest: MapToDeviceCoords_in_range)

text \<open>
  C8, as stated, fails for rows that come from the store: a dialog opened on a profile whose
  button string holds \<open>x:-5,y:1000\<close> shows these coordinates unclamped, writing the text
  \<open>-5\<close> again into the x cell changes nothing, and accepting the dialog writes the
  coordinates back as they are.
\<close>

theorem C8_loaded_coordinates_counterexample:
  "map_option (\<lambda>s. map (\<lambda>r. (xcoord r, ycoord r)) (rows s))
      (ConfigureTouchFromButton out_of_range_maps 0) = Some [(- 5, 1000)] \<and>
   map_option (\<lambda>s. map (\<lambda>r. (xcoord r, ycoord r)) (rows (set_coordinate_text 0 1 (- 5) True s)))
      (ConfigureTouchFromButton out_of_range_maps 0) = Some [(- 5, 1000)] \<and>
   map_option (\<lambda>s. map buttons (touch_maps s))
      (Option.bind (ConfigureTouchFromButton out_of_range_maps 0) ApplyConfiguration) =
     Some [[''engine:keyboard,code:65,x:-5,y:1000'']]"
  by code_simp

text \<open>
  C8 (amended). Let the dialog be opened on profiles whose button strings hold only
  coordinates inside the device range, and let it run through any events (the preview
  emits \<open>DotAdded\<close> only with a point of \<open>MapToDeviceCoords\<close>, which is in range). Then the
  coordinates of every row and of every stored button string satisfy \<open>0 \<le> x < W\<close> and
  \<open>0 \<le> y < H\<close>, and writing any value \<open>v\<close> into a coordinate cell of a row, as any text,
  stores \<open>clamp v 0 (W - 1)\<close> in column 1 and \<open>clamp v 0 (H - 1)\<close> in column 2, leaves the
  other coordinate of the row alone, and keeps every row in range.
\<close>

theorem C8_coordinates_in_range:
  assumes "store_in_range maps" and "ConfigureTouchFromButton maps i = Some s0"
    and "list_all preview_event es" and "run es s0 = Some s"
  shows "list_all row_in_range (rows s) \<and> store_in_range (touch_maps s) \<and>
         (row < length (rows s) \<longrightarrow>
            xcoord (rows (set_coordinate_text row 1 v c s) ! row) = clamp v 0 (kScreenBottomWidth - 1) \<and>
            ycoord (rows (set_coordinate_text row 2 v c s) ! row) = clamp v 0 (kScreenBottomHeight - 1) \<and>
            ycoord (rows (set_coordinate_text row 1 v c s) ! row) = ycoord (rows s ! row) \<and>
            xcoord (rows (set_coordinate_text row 2 v c s) ! row) = xcoord (rows s ! row) \<and>
            list_all row_in_range (rows (set_coordinate_text row 1 v c s)) \<and>
            list_all row_in_range (rows (set_coordinate_text row 2 v c s)))"
proof -
  have "coords_ok s0" using assms(1,2) by (rule ConfigureTouchFromButton_coords_ok)
  then have "coords_ok s" using assms(3,4) by (rule run_coords_ok)
  then have rs: "list_all row_in_range (rows s)" and st: "store_in_range (touch_maps s)"
    by (simp_all add: coords_ok_def)
  have "xcoord (rows (set_coordinate_text row 1 v c s) ! row) = clamp v 0 (kScreenBottomWidth - 1) \<and>
        ycoord (rows (set_coordinate_text row 2 v c s) ! row) = clamp v 0 (kScreenBottomHeight - 1) \<and>
        ycoord (rows (set_coordinate_text row 1 v c s) ! row) = ycoord (rows s ! row) \<and>
        xcoord (rows (set_coordinate_text row 2 v c s) ! row) = xcoord (rows s ! row)"
    if "row < length (rows s)"
    using that set_coordinate_text_rows [OF that rs, of v c] by simp
  moreover have "list_all row_in_range (rows (set_coordinate_text row 1 v c s))"
    "list_all row_in_range (rows (set_coordinate_text row 2 v c s))"
    using rs by (rule set_coordinate_text_in_range)+
  ultimately show ?thesis using rs st by simp
qed

theorem C8_coordinates_in_range_witness:
  "store_in_range (touch_maps unbound_row_dialog) \<and>
   ConfigureTouchFromButton (touch_maps unbound_row_dialog) 0 = Some unbound_row_dialog \<and>
   map_option (\<lambda>s. map (\<lambda>r. (xcoord r, ycoord r)) (rows s))
     (run [DotAdded 319 239, KeyPress 66 (- 1), DotMoved 2 7 8] unbound_row_dialog) =
     Some [(10, 20), (7, 8), (319, 239)] \<and>
   (\<exists>s. run [DotAdded 319 239, KeyPress 66 (- 1), DotMoved 2 7 8] unbound_row_dialog = Some s \<and>
        list_all row_in_range (rows s) \<and> store_in_range (touch_maps s) \<and>
        xcoord (rows (set_coordinate_text 0 1 (- 5) False s) ! 0) = 0 \<and>
        xcoord (rows (set_coordinate_text 0 1 (kScreenBottomWidth + 100) True s) ! 0) = 319 \<and>
        ycoord (rows (set_coordinate_text 0 2 1000 True s) ! 0) = 239 \<and>
        xcoord (rows (set_coordinate_text 0 1 10 True s) ! 0) = 10)"
proof -
  let ?es = "[DotAdded 319 239, KeyPress 66 (- 1), DotMoved 2 7 8]"
  have a: "store_in_range (touch_maps unbound_row_dialog)" by code_simp
  have b: "ConfigureTouchFromButton (touch_maps unbound_row_dialog) 0 = Some unbound_row_dialog"
    by code_simp
  have c: "list_all preview_event ?es" by code_simp
  have d: "map_option (\<lambda>s. map (\<lambda>r. (xcoord r, ycoord r)) (rows s)) (run ?es unbound_row_dialog) =
     Some [(10, 20), (7, 8), (319, 239)]" by code_simp
  then obtain s where s: "run ?es unbound_row_dialog = Some s"
    and l: "map (\<lambda>r. (xcoord r, ycoord r)) (rows s) = [(10, 20), (7, 8), (319, 239)]"
    by (auto simp del: run.simps)
  from l have "length (map (\<lambda>r. (xcoord r, ycoord r)) (rows s)) = 3" by simp
  then have e: "0 < length (rows s)" by simp
  show ?thesis
    using C8_coordinates_in_range [OF a b c s, of 0 "- 5" False]
      C8_coordinates_in_range [OF a b c s, of 0 "kScreenBottomWidth + 100" True]
      C8_coordinates_in_range [OF a b c s, of 0 1000 True]
      C8_coordinates_in_range [OF a b c s, of 0 10 True] a b d s e
    by (simp add: clamp_def kScreenBottomWidth_def kScreenBottomHeight_def del: run.simps)
qed

end
